theory Spec2Isabelle
  imports Complex_Main "HOL-Library.Multiset" "HOL-Library.Product_Lexorder" "HOL-Library.AList"
begin

section \<open>Python values\<close>

text \<open>
  Task parameters, handler results, hook results and context values are dynamically typed
  in the source. They are modelled by the JSON-like fragment of Python values: \<open>None\<close>,
  booleans, unbounded integers, strings, lists and dictionaries with string keys (an
  association list, in insertion order). Strings are lists of 8-bit characters, read as
  the code points below 256.
\<close>

datatype pyval = PNone | PBool bool | PInt int | PStr string
  | PList "pyval list" | PDict "(string \<times> pyval) list"

text \<open>Truth value of an object, as tested by \<open>if x:\<close> and \<open>not x\<close>.\<close>

fun truthy :: "pyval \<Rightarrow> bool" where
  "truthy PNone = False"
| "truthy (PBool b) = b"
| "truthy (PInt i) = (i \<noteq> 0)"
| "truthy (PStr s) = (s \<noteq> [])"
| "truthy (PList xs) = (xs \<noteq> [])"
| "truthy (PDict kvs) = (kvs \<noteq> [])"

definition hex_digit :: "nat \<Rightarrow> char" where
  "hex_digit n = ''0123456789abcdef'' ! (n mod 16)"

fun dec_digits :: "nat \<Rightarrow> string" where
  "dec_digits n = (if n < 10 then [hex_digit n] else dec_digits (n div 10) @ [hex_digit (n mod 10)])"

definition int_str :: "int \<Rightarrow> string" where
  "int_str i = (if i < 0 then CHR ''-'' # dec_digits (nat (- i)) else dec_digits (nat i))"

text \<open>\<open>sep.join(xs)\<close>\<close>

fun join :: "string \<Rightarrow> string list \<Rightarrow> string" where
  "join sep [] = []"
| "join sep [x] = x"
| "join sep (x # y # ys) = x @ sep @ join sep (y # ys)"

text \<open>
  \<open>repr\<close> of a string: single quotes unless the string has a single quote and no double
  quote; the quote and the backslash are escaped, tab, newline and carriage return have
  their two-character escapes, and the other non-printable code points below 256 (controls,
  DEL, 0x80 to 0xa0 and the soft hyphen 0xad) are written \<open>\xhh\<close>.
\<close>

definition repr_char :: "char \<Rightarrow> char \<Rightarrow> string" where
  "repr_char quote c =
     (let n = (of_char c :: nat) in
      if c = quote \<or> c = CHR 0x5C then [CHR 0x5C, c]
      else if n = 9 then [CHR 0x5C, CHR ''t'']
      else if n = 10 then [CHR 0x5C, CHR ''n'']
      else if n = 13 then [CHR 0x5C, CHR ''r'']
      else if n < 32 \<or> n = 127 \<or> (128 \<le> n \<and> n \<le> 160) \<or> n = 173
        then [CHR 0x5C, CHR ''x'', hex_digit (n div 16), hex_digit n]
      else [c])"

definition repr_str :: "string \<Rightarrow> string" where
  "repr_str s =
     (let quote = (if CHR 0x27 \<in> set s \<and> CHR 0x22 \<notin> set s then CHR 0x22 else CHR 0x27)
      in quote # concat (map (repr_char quote) s) @ [quote])"

fun py_repr :: "pyval \<Rightarrow> string" where
  "py_repr PNone = ''None''"
| "py_repr (PBool b) = (if b then ''True'' else ''False'')"
| "py_repr (PInt i) = int_str i"
| "py_repr (PStr s) = repr_str s"
| "py_repr (PList xs) = ''['' @ join '', '' (map py_repr xs) @ '']''"
| "py_repr (PDict kvs) =
     ''{'' @ join '', '' (map (\<lambda>kv. repr_str (fst kv) @ '': '' @ py_repr (snd kv)) kvs) @ ''}''"

text \<open>\<open>str(v)\<close>, also what an f-string inserts: a string as it is, anything else by \<open>repr\<close>.\<close>

definition py_str :: "pyval \<Rightarrow> string" where
  "py_str v = (case v of PStr s \<Rightarrow> s | _ \<Rightarrow> py_repr v)"

text \<open>
  \<open>json.dumps\<close> with its defaults (\<open>ensure_ascii=True\<close>, separators \<open>", "\<close> and
  \<open>": "\<close>): everything outside the printable ASCII range is escaped, as \<open>\u00hh\<close>
  where no short escape exists.
\<close>

definition json_char :: "char \<Rightarrow> string" where
  "json_char c =
     (let n = (of_char c :: nat) in
      if c = CHR 0x22 \<or> c = CHR 0x5C then [CHR 0x5C, c]
      else if n = 8 then [CHR 0x5C, CHR ''b'']
      else if n = 12 then [CHR 0x5C, CHR ''f'']
      else if n = 10 then [CHR 0x5C, CHR ''n'']
      else if n = 13 then [CHR 0x5C, CHR ''r'']
      else if n = 9 then [CHR 0x5C, CHR ''t'']
      else if 32 \<le> n \<and> n \<le> 126 then [c]
      else [CHR 0x5C, CHR ''u'', CHR ''0'', CHR ''0'', hex_digit (n div 16), hex_digit n])"

definition json_str :: "string \<Rightarrow> string" where
  "json_str s = CHR 0x22 # concat (map json_char s) @ [CHR 0x22]"

fun json_dumps :: "pyval \<Rightarrow> string" where
  "json_dumps PNone = ''null''"
| "json_dumps (PBool b) = (if b then ''true'' else ''false'')"
| "json_dumps (PInt i) = int_str i"
| "json_dumps (PStr s) = json_str s"
| "json_dumps (PList xs) = ''['' @ join '', '' (map json_dumps xs) @ '']''"
| "json_dumps (PDict kvs) =
     ''{'' @ join '', '' (map (\<lambda>kv. json_str (fst kv) @ '': '' @ json_dumps (snd kv)) kvs) @ ''}''"

text \<open>
  Exceptions, with \<open>str(e)\<close>: the message, and for a \<open>KeyError\<close> the \<open>repr\<close> of the
  key. \<open>SystemExit\<close>, \<open>KeyboardInterrupt\<close> and the other direct descendants of
  \<open>BaseException\<close> (such as \<open>CancelledError\<close>) are not instances of \<open>Exception\<close>:
  \<open>except Exception\<close> lets them through. The first two also end the event loop when a
  task raises them.
\<close>

datatype exn =
    ValueError string | KeyError string | AttributeError string | OverflowError string
  | Exception string
  | SystemExit string | KeyboardInterrupt | BaseException string

fun exn_str :: "exn \<Rightarrow> string" where
  "exn_str (ValueError m) = m"
| "exn_str (KeyError k) = repr_str k"
| "exn_str (AttributeError m) = m"
| "exn_str (OverflowError m) = m"
| "exn_str (Exception m) = m"
| "exn_str (SystemExit m) = m"
| "exn_str KeyboardInterrupt = []"
| "exn_str (BaseException m) = m"

fun is_Exception :: "exn \<Rightarrow> bool" where
  "is_Exception (SystemExit m) = False"
| "is_Exception KeyboardInterrupt = False"
| "is_Exception (BaseException m) = False"
| "is_Exception e = True"

fun is_exit :: "exn \<Rightarrow> bool" where
  "is_exit (SystemExit m) = True"
| "is_exit KeyboardInterrupt = True"
| "is_exit e = False"

section \<open>The orchestrator (core/orchestrator.py)\<close>

datatype TaskStatus = PENDING | RUNNING | COMPLETED | FAILED

record Task =
  task_id :: string
  role :: string
  action :: string
  dependencies :: "string list"
  params :: "(string \<times> pyval) list"
  status :: TaskStatus
  result :: pyval
  error :: "string option"

text \<open>The dataclass constructor with its defaults (\<open>__post_init__\<close> included).\<close>

definition Task_init :: "string \<Rightarrow> string \<Rightarrow> string \<Rightarrow> string list \<Rightarrow> (string \<times> pyval) list \<Rightarrow> Task" where
  "Task_init i r a deps ps =
     \<lparr>task_id = i, role = r, action = a, dependencies = deps, params = ps,
      status = PENDING, result = PNone, error = None\<rparr>"

subsection \<open>calculate\_waves\<close>

text \<open>
  The \<open>while remaining_tasks\<close> loop, with the three locals as arguments. Membership
  \<open>t not in wave\<close> is dataclass equality, which compares all fields, as equality of
  records does. The loop ends because a wave that is not empty removes at least one task.
\<close>

function waves_loop :: "Task list list \<Rightarrow> string set \<Rightarrow> Task list \<Rightarrow> exn + Task list list" where
  "waves_loop waves completed_ids remaining_tasks =
     (if remaining_tasks = [] then Inr waves
      else let wave = filter (\<lambda>task. \<forall>dep \<in> set (dependencies task). dep \<in> completed_ids)
                        remaining_tasks
           in if wave = [] then Inl (ValueError ''Circular dependency detected'')
              else waves_loop (waves @ [wave]) (completed_ids \<union> task_id ` set wave)
                     (filter (\<lambda>t. t \<notin> set wave) remaining_tasks))"
  by pat_completeness auto
termination
proof (relation "measure (\<lambda>(waves, completed_ids, remaining_tasks). length remaining_tasks)")
  show "wf (measure (\<lambda>(waves, completed_ids, remaining_tasks). length remaining_tasks))"
    by simp
next
  fix waves :: "Task list list" and completed_ids remaining_tasks and wave :: "Task list"
  assume w: "wave = filter (\<lambda>task. \<forall>dep \<in> set (dependencies task). dep \<in> completed_ids)
                      remaining_tasks"
    and ne: "wave \<noteq> []"
  from ne obtain x where x: "x \<in> set wave" by (cases wave) auto
  with w have "x \<in> set remaining_tasks" by auto
  with x have "length (filter (\<lambda>t. t \<notin> set wave) remaining_tasks) < length remaining_tasks"
    by (intro length_filter_less[of x]) auto
  then show "((waves @ [wave], completed_ids \<union> task_id ` set wave,
               filter (\<lambda>t. t \<notin> set wave) remaining_tasks),
              (waves, completed_ids, remaining_tasks))
             \<in> measure (\<lambda>(waves, completed_ids, remaining_tasks). length remaining_tasks)"
    by simp
qed

definition calculate_waves :: "Task list \<Rightarrow> exn + Task list list" where
  "calculate_waves tasks = waves_loop [] {} tasks"

text \<open>
  The notions the properties of the scheduler are stated with: the dependency edges of a
  batch (from the id a task depends on to the task's own id), whether every dependency id
  is the id of a task of the batch, and whether a task is ready once the ids in \<open>C\<close> are
  complete.
\<close>

definition dep_edges :: "Task list \<Rightarrow> (string \<times> string) set" where
  "dep_edges tasks = (\<Union>t \<in> set tasks. (\<lambda>d. (d, task_id t)) ` set (dependencies t))"

definition deps_resolve :: "Task list \<Rightarrow> bool" where
  "deps_resolve tasks = (\<forall>t \<in> set tasks. set (dependencies t) \<subseteq> task_id ` set tasks)"

definition ready :: "string set \<Rightarrow> Task \<Rightarrow> bool" where
  "ready C t = (\<forall>dep \<in> set (dependencies t). dep \<in> C)"

subsection \<open>Task execution\<close>

text \<open>
  An event as \<open>_emit_event\<close> builds it: the type, the positional arguments (the task, as
  it is when the event is emitted) and the keyword arguments.
\<close>

record OrchEvent =
  ev_type :: string
  ev_args :: "Task list"
  ev_kwargs :: "(string \<times> pyval) list"

text \<open>
  The hooks runner is a collaborator set from outside: \<open>run_hooks(hook_type)\<close> acts on an
  environment \<open>'w\<close> (it runs external commands) and returns a dictionary or raises.
\<close>

type_synonym 'w hooks_runner = "pyval \<Rightarrow> 'w \<Rightarrow> (exn + (string \<times> pyval) list) \<times> 'w"

text \<open>
  A handler registered with \<open>on_event\<close> is a callable from outside: called with an
  event, it acts on the environment and returns or raises.
\<close>

type_synonym 'w observer = "OrchEvent \<Rightarrow> 'w \<Rightarrow> exn option \<times> 'w"

text \<open>
  The state an execution acts on: the attributes \<open>event_handlers\<close> and
  \<open>hooks_runner\<close>, the environment \<open>world\<close> of the hooks runner and of the
  handlers, and \<open>emitted\<close>, the events that \<open>_emit_event\<close> has built so far, in
  order (a record of the calls, which the source does not keep).
\<close>

record 'w ParallelOrchestrator =
  event_handlers :: "'w observer list"
  hooks_runner :: "'w hooks_runner option"
  world :: 'w
  emitted :: "OrchEvent list"

text \<open>
  \<open>for handler in self.event_handlers: handler(event)\<close>: the first handler that raises
  ends the loop, and its exception leaves \<open>_emit_event\<close>.
\<close>

fun call_handlers :: "'w observer list \<Rightarrow> OrchEvent \<Rightarrow> 'w \<Rightarrow> exn option \<times> 'w" where
  "call_handlers [] event w = (None, w)"
| "call_handlers (handler # rest) event w =
     (case handler event w of
        (Some e, w') \<Rightarrow> (Some e, w')
      | (None, w') \<Rightarrow> call_handlers rest event w')"

definition orch_emit_event ::
  "string \<Rightarrow> Task list \<Rightarrow> (string \<times> pyval) list \<Rightarrow> 'w ParallelOrchestrator
     \<Rightarrow> exn option \<times> 'w ParallelOrchestrator" where
  "orch_emit_event event_type args kwargs self =
     (let event = \<lparr>ev_type = event_type, ev_args = args, ev_kwargs = kwargs\<rparr>
      in case call_handlers (event_handlers self) event (world self) of
           (r, w) \<Rightarrow> (r, self\<lparr>world := w, emitted := emitted self @ [event]\<rparr>))"

text \<open>\<open>d.get(k, default)\<close> on a dictionary.\<close>

definition dict_get :: "(string \<times> pyval) list \<Rightarrow> string \<Rightarrow> pyval \<Rightarrow> pyval" where
  "dict_get d k dflt = (case map_of d k of None \<Rightarrow> dflt | Some v \<Rightarrow> v)"

definition handle_product_owner :: "Task \<Rightarrow> pyval" where
  "handle_product_owner task = PDict
     [(''vision'', PStr ''Feature vision document''),
      (''acceptance_criteria'', PList [PStr ''AC1'', PStr ''AC2'', PStr ''AC3'']),
      (''success_metrics'', PDict [(''metric1'', PStr ''value1'')])]"

definition handle_backend_dev :: "Task \<Rightarrow> pyval" where
  "handle_backend_dev task = PDict
     [(''api_endpoints'', PList [PStr ''/api/v1/feature'']),
      (''data_models'', PList [PStr ''Model1'', PStr ''Model2'']),
      (''tests_written'', PInt 15)]"

definition handle_frontend_dev :: "Task \<Rightarrow> pyval" where
  "handle_frontend_dev task = PDict
     [(''components'', PList [PStr ''Component1'', PStr ''Component2'']),
      (''ui_tests'', PInt 10),
      (''accessibility_score'', PInt 98)]"

definition handle_devops :: "Task \<Rightarrow> pyval" where
  "handle_devops task = PDict
     [(''deployment_ready'', PBool True),
      (''ci_pipeline'', PStr ''configured''),
      (''monitoring'', PStr ''enabled'')]"

definition handle_qa :: "Task \<Rightarrow> pyval" where
  "handle_qa task = PDict
     [(''test_coverage'', PInt 85),
      (''bugs_found'', PInt 3),
      (''performance_baseline'', PStr ''established'')]"

definition run_quality_checks :: "Task \<Rightarrow> 'w ParallelOrchestrator \<Rightarrow> (exn + pyval) \<times> 'w ParallelOrchestrator" where
  "run_quality_checks task self =
     (case hooks_runner self of
        Some run_hooks \<Rightarrow>
          (case run_hooks (PStr ''pre-push'') (world self) of
             (Inl e, w) \<Rightarrow> (Inl e, self\<lparr>world := w\<rparr>)
           | (Inr res, w) \<Rightarrow>
               (case map_of res ''success'' of
                  None \<Rightarrow> (Inl (KeyError ''success''), self\<lparr>world := w\<rparr>)
                | Some ok \<Rightarrow>
                    (Inr (PDict [(''quality_passed'', ok),
                                 (''issues_found'', dict_get res ''issues'' (PList [])),
                                 (''auto_fixed'', dict_get res ''fixed'' (PInt 0))]),
                     self\<lparr>world := w\<rparr>)))
      | None \<Rightarrow>
          (Inr (PDict [(''quality_passed'', PBool True), (''message'', PStr ''No hooks configured'')]),
           self))"

definition perform_code_review :: "Task \<Rightarrow> pyval" where
  "perform_code_review task = PDict
     [(''review_status'', PStr ''approved''),
      (''suggestions'', PList [PStr ''Consider using type hints'', PStr ''Add docstrings'']),
      (''security_check'', PStr ''passed'')]"

definition execute_hooks :: "Task \<Rightarrow> 'w ParallelOrchestrator \<Rightarrow> (exn + pyval) \<times> 'w ParallelOrchestrator" where
  "execute_hooks task self =
     (let hook_type = dict_get (params task) ''hook_type'' (PStr ''pre-commit'') in
      case hooks_runner self of
        Some run_hooks \<Rightarrow>
          (case run_hooks hook_type (world self) of
             (Inl e, w) \<Rightarrow> (Inl e, self\<lparr>world := w\<rparr>)
           | (Inr res, w) \<Rightarrow> (Inr (PDict res), self\<lparr>world := w\<rparr>))
      | None \<Rightarrow>
          (Inr (PDict [(''success'', PBool True), (''message'', PStr ''No hooks configured'')]), self))"

definition default_tech_lead_action :: "Task \<Rightarrow> pyval" where
  "default_tech_lead_action task = PDict
     [(''action'', PStr (action task)), (''status'', PStr ''completed''), (''quality_score'', PInt 95)]"

definition handle_tech_lead :: "Task \<Rightarrow> 'w ParallelOrchestrator \<Rightarrow> (exn + pyval) \<times> 'w ParallelOrchestrator" where
  "handle_tech_lead task self =
     (if action task = ''run_quality_checks'' then run_quality_checks task self
      else if action task = ''perform_review'' then (Inr (perform_code_review task), self)
      else if action task = ''execute_hooks'' then execute_hooks task self
      else (Inr (default_tech_lead_action task), self))"

definition execute_by_role :: "Task \<Rightarrow> 'w ParallelOrchestrator \<Rightarrow> (exn + pyval) \<times> 'w ParallelOrchestrator" where
  "execute_by_role task self =
     (if role task = ''product_owner'' then (Inr (handle_product_owner task), self)
      else if role task = ''backend_dev'' then (Inr (handle_backend_dev task), self)
      else if role task = ''frontend_dev'' then (Inr (handle_frontend_dev task), self)
      else if role task = ''devops_eng'' then (Inr (handle_devops task), self)
      else if role task = ''qa_engineer'' then (Inr (handle_qa task), self)
      else if role task = ''tech_lead'' then handle_tech_lead task self
      else (Inl (ValueError (''Unknown role: '' @ role task)), self))"

text \<open>
  The result of the coroutine \<open>execute_task\<close>: it returns the task, or an exception
  leaves it; the task is the task object as the coroutine leaves it.
\<close>

datatype task_result = Returned Task | Raised exn Task

text \<open>The \<open>except Exception as e\<close> branch of \<open>execute_task\<close>.\<close>

definition except_handler ::
  "exn \<Rightarrow> Task \<Rightarrow> 'w ParallelOrchestrator \<Rightarrow> task_result \<times> 'w ParallelOrchestrator" where
  "except_handler e task self =
     (let task' = task\<lparr>error := Some (exn_str e), status := FAILED\<rparr>
      in case orch_emit_event ''task.failed'' [task'] [(''error'', PStr (exn_str e))] self of
           (None, self') \<Rightarrow> (Returned task', self')
         | (Some e', self') \<Rightarrow> (Raised e' task', self'))"

text \<open>
  An exception raised inside the \<open>try\<close> block: the branch above takes an instance of
  \<open>Exception\<close>; anything else leaves the coroutine.
\<close>

definition raised_in_try ::
  "exn \<Rightarrow> Task \<Rightarrow> 'w ParallelOrchestrator \<Rightarrow> task_result \<times> 'w ParallelOrchestrator" where
  "raised_in_try e task self =
     (if is_Exception e then except_handler e task self else (Raised e task, self))"

text \<open>
  \<open>execute_task\<close> is a coroutine, and its one point of suspension is
  \<open>asyncio.sleep(0.1)\<close>. \<open>task_start\<close> is the part before it: the status becomes
  Running, \<open>task.started\<close> is emitted (outside the \<open>try\<close>), and a tech-lead task runs
  its hooks, which can end the coroutine (a failed hook returns, an exception is handled
  as above). \<open>task_resume\<close> is the part after it: the role handler, then success, with
  \<open>task.completed\<close> emitted inside the \<open>try\<close>.
\<close>

datatype coroutine = Finished task_result | Sleeping Task

definition task_start :: "Task \<Rightarrow> 'w ParallelOrchestrator \<Rightarrow> coroutine \<times> 'w ParallelOrchestrator" where
  "task_start task0 self0 =
     (let task = task0\<lparr>status := RUNNING\<rparr>
      in case orch_emit_event ''task.started'' [task] [] self0 of
           (Some e, self) \<Rightarrow> (Finished (Raised e task), self)
         | (None, self) \<Rightarrow>
             (case (if role task = ''tech_lead'' then hooks_runner self else None) of
                None \<Rightarrow> (Sleeping task, self)
              | Some run_hooks \<Rightarrow>
                  (case run_hooks (PStr (action task)) (world self) of
                     (Inl e, w) \<Rightarrow> map_prod Finished id (raised_in_try e task (self\<lparr>world := w\<rparr>))
                   | (Inr hook_result, w) \<Rightarrow>
                       (case map_of hook_result ''success'' of
                          None \<Rightarrow> map_prod Finished id
                                    (raised_in_try (KeyError ''success'') task (self\<lparr>world := w\<rparr>))
                        | Some ok \<Rightarrow>
                            if \<not> truthy ok then
                              (case map_of hook_result ''error'' of
                                 None \<Rightarrow> map_prod Finished id
                                           (raised_in_try (KeyError ''error'') task (self\<lparr>world := w\<rparr>))
                               | Some err \<Rightarrow>
                                   (Finished (Returned
                                      (task\<lparr>error := Some (''Hook failed: '' @ py_str err),
                                            status := FAILED\<rparr>)),
                                    self\<lparr>world := w\<rparr>))
                            else (Sleeping task, self\<lparr>world := w\<rparr>)))))"

definition task_resume :: "Task \<Rightarrow> 'w ParallelOrchestrator \<Rightarrow> task_result \<times> 'w ParallelOrchestrator" where
  "task_resume task self =
     (case execute_by_role task self of
        (Inl e, self') \<Rightarrow> raised_in_try e task self'
      | (Inr res, self') \<Rightarrow>
          (let task' = task\<lparr>result := res, status := COMPLETED\<rparr>
           in case orch_emit_event ''task.completed'' [task'] [] self' of
                (None, self'') \<Rightarrow> (Returned task', self'')
              | (Some e, self'') \<Rightarrow> raised_in_try e task' self''))"


text \<open>
  \<open>asyncio.gather(..., return_exceptions=True)\<close> over the coroutines of a wave: each is
  started in turn and runs to its suspension, then each is resumed in turn; the results
  come in the order of the wave, and an exception that left a coroutine is its result
  (\<open>Raised e t\<close> stands for the exception \<open>e\<close> in the list). A \<open>SystemExit\<close> or
  \<open>KeyboardInterrupt\<close> is not gathered: it ends the event loop at once, and with it the
  call.
\<close>

fun exit_of :: "task_result \<Rightarrow> exn option" where
  "exit_of (Returned t) = None"
| "exit_of (Raised e t) = (if is_exit e then Some e else None)"

fun start_all ::
  "Task list \<Rightarrow> 'w ParallelOrchestrator \<Rightarrow> (exn + coroutine list) \<times> 'w ParallelOrchestrator" where
  "start_all [] self = (Inr [], self)"
| "start_all (t # ts) self =
     (case task_start t self of
        (Sleeping t', self1) \<Rightarrow>
          (case start_all ts self1 of
             (Inl e, self2) \<Rightarrow> (Inl e, self2)
           | (Inr cs, self2) \<Rightarrow> (Inr (Sleeping t' # cs), self2))
      | (Finished r, self1) \<Rightarrow>
          (case exit_of r of
             Some e \<Rightarrow> (Inl e, self1)
           | None \<Rightarrow>
               (case start_all ts self1 of
                  (Inl e, self2) \<Rightarrow> (Inl e, self2)
                | (Inr cs, self2) \<Rightarrow> (Inr (Finished r # cs), self2))))"

fun resume_all ::
  "coroutine list \<Rightarrow> 'w ParallelOrchestrator \<Rightarrow> (exn + task_result list) \<times> 'w ParallelOrchestrator" where
  "resume_all [] self = (Inr [], self)"
| "resume_all (Finished r # cs) self =
     (case resume_all cs self of
        (Inl e, self1) \<Rightarrow> (Inl e, self1)
      | (Inr rs, self1) \<Rightarrow> (Inr (r # rs), self1))"
| "resume_all (Sleeping t # cs) self =
     (case task_resume t self of
        (r, self1) \<Rightarrow>
          (case exit_of r of
             Some e \<Rightarrow> (Inl e, self1)
           | None \<Rightarrow>
               (case resume_all cs self1 of
                  (Inl e, self2) \<Rightarrow> (Inl e, self2)
                | (Inr rs, self2) \<Rightarrow> (Inr (r # rs), self2))))"

definition gather ::
  "Task list \<Rightarrow> 'w ParallelOrchestrator \<Rightarrow> (exn + task_result list) \<times> 'w ParallelOrchestrator" where
  "gather wave self =
     (case start_all wave self of
        (Inl e, self1) \<Rightarrow> (Inl e, self1)
      | (Inr cs, self1) \<Rightarrow> resume_all cs self1)"

text \<open>The \<open>for i, wave in enumerate(waves)\<close> loop of \<open>execute_wave\<close>.\<close>

fun run_waves ::
  "nat \<Rightarrow> Task list list \<Rightarrow> task_result list \<Rightarrow> 'w ParallelOrchestrator
     \<Rightarrow> (exn + task_result list) \<times> 'w ParallelOrchestrator" where
  "run_waves i [] all_results self = (Inr all_results, self)"
| "run_waves i (wave # waves) all_results self =
     (case orch_emit_event ''wave.started'' []
             [(''wave_number'', PInt (int i + 1)), (''tasks'', PInt (int (length wave)))] self of
        (Some e, self1) \<Rightarrow> (Inl e, self1)
      | (None, self1) \<Rightarrow>
          (case gather wave self1 of
             (Inl e, self2) \<Rightarrow> (Inl e, self2)
           | (Inr wave_results, self2) \<Rightarrow>
               (case orch_emit_event ''wave.completed'' [] [(''wave_number'', PInt (int i + 1))] self2 of
                  (Some e, self3) \<Rightarrow> (Inl e, self3)
                | (None, self3) \<Rightarrow> run_waves (Suc i) waves (all_results @ wave_results) self3)))"

definition execute_wave ::
  "Task list \<Rightarrow> 'w ParallelOrchestrator \<Rightarrow> (exn + task_result list) \<times> 'w ParallelOrchestrator" where
  "execute_wave tasks self =
     (case calculate_waves tasks of
        Inl e \<Rightarrow> (Inl e, self)
      | Inr waves \<Rightarrow> run_waves 0 waves [] self)"


definition events_of :: "string \<Rightarrow> OrchEvent list \<Rightarrow> OrchEvent list" where
  "events_of ty evs = filter (\<lambda>e. ev_type e = ty) evs"






definition same_config :: "'w ParallelOrchestrator \<Rightarrow> 'w ParallelOrchestrator \<Rightarrow> bool" where
  "same_config self self' =
     (event_handlers self' = event_handlers self \<and> hooks_runner self' = hooks_runner self)"






section \<open>The context manager (core/context.py)\<close>

text \<open>
  A \<open>datetime\<close> is a point on the clock, here a number of ticks. Relevance scores are
  floats in the source and real numbers here: the arithmetic is exact.
\<close>

type_synonym datetime = int

record ContextEntry =
  key :: string
  entry_value :: pyval
  relevance_score :: real
  last_accessed :: datetime
  access_count :: int

text \<open>
  The manager: the token budget and the dictionary \<open>context\<close> of entries (the field
  \<open>ctx\<close>), in insertion order.
  \<open>compression_threshold\<close> and \<open>relevance_decay\<close> are attributes that
  \<open>__init__\<close> sets and nothing reassigns; \<open>pattern_cache\<close> is never used and the
  token counter has no state.
\<close>

record ContextManager =
  max_tokens :: int
  ctx :: "(string \<times> ContextEntry) list"

definition compression_threshold :: real where
  "compression_threshold = 0.75"

definition relevance_decay :: real where
  "relevance_decay = 0.95"

definition ContextManager_init :: "int \<Rightarrow> ContextManager" where
  "ContextManager_init mt = \<lparr>max_tokens = mt, ctx = []\<rparr>"

text \<open>\<open>TokenCounter.count\<close>: four characters are one token.\<close>

definition count :: "string \<Rightarrow> nat" where
  "count text = length text div 4"

definition get_token_usage :: "ContextManager \<Rightarrow> nat" where
  "get_token_usage self =
     count (json_dumps (PDict (map (\<lambda>(k, v). (k, entry_value v)) (ctx self))))"

text \<open>
  The sort of \<open>_compress\<close>: by the pair (relevance times access count, last access),
  pairs compared lexicographically, with \<open>reverse=True\<close>. A reversed sort is the stable
  ascending sort of the reversed list, reversed.
\<close>

definition sort_key_of :: "string \<times> ContextEntry \<Rightarrow> real \<times> datetime" where
  "sort_key_of x = (relevance_score (snd x) * real_of_int (access_count (snd x)), last_accessed (snd x))"

definition sorted_entries :: "ContextManager \<Rightarrow> (string \<times> ContextEntry) list" where
  "sorted_entries self = rev (sort_key sort_key_of (rev (ctx self)))"

text \<open>The \<open>while\<close> loop of \<open>_compress\<close>: \<open>entries.pop()\<close> takes the last entry.\<close>

definition over_budget :: "ContextManager \<Rightarrow> bool" where
  "over_budget self =
     (real (get_token_usage self) > compression_threshold * real_of_int (max_tokens self))"

function evict_loop :: "(string \<times> ContextEntry) list \<Rightarrow> ContextManager \<Rightarrow> ContextManager" where
  "evict_loop entries self =
     (if over_budget self then
        (if entries = [] then self
         else evict_loop (butlast entries)
                (self\<lparr>ctx := AList.delete (fst (last entries)) (ctx self)\<rparr>))
      else self)"
  by pat_completeness auto
termination
  by (relation "measure (\<lambda>(entries, self). length entries)") auto

definition compress :: "ContextManager \<Rightarrow> ContextManager" where
  "compress self =
     (let entries = sorted_entries self;
          self1 = evict_loop entries self
      in self1\<lparr>ctx := map (\<lambda>(k, entry). (k, entry\<lparr>relevance_score := relevance_score entry * relevance_decay\<rparr>))
                              (ctx self1)\<rparr>)"

text \<open>
  \<open>set\<close> and \<open>get\<close>; \<open>now\<close> is what \<open>datetime.now()\<close> returns during the call.
  Assigning to a key of a dictionary keeps the place of a key that is there and puts a new
  key last.
\<close>

definition set_ctx :: "datetime \<Rightarrow> string \<Rightarrow> pyval \<Rightarrow> real \<Rightarrow> ContextManager \<Rightarrow> ContextManager" where
  "set_ctx now k v relevance self =
     (let entry = \<lparr>key = k, entry_value = v, relevance_score = relevance,
                   last_accessed = now, access_count = 0\<rparr>;
          self1 = self\<lparr>ctx := AList.update k entry (ctx self)\<rparr>
      in if real (get_token_usage self1) > compression_threshold then compress self1 else self1)"

definition get_ctx :: "datetime \<Rightarrow> string \<Rightarrow> pyval \<Rightarrow> ContextManager \<Rightarrow> pyval \<times> ContextManager" where
  "get_ctx now k dflt self =
     (case map_of (ctx self) k of
        Some entry \<Rightarrow>
          (entry_value entry,
           self\<lparr>ctx := AList.update k
                   (entry\<lparr>access_count := access_count entry + 1, last_accessed := now\<rparr>)
                   (ctx self)\<rparr>)
      | None \<Rightarrow> (dflt, self))"

subsection \<open>The relevant slice\<close>

definition relevance_map :: "(string \<times> (string \<times> string list) list) list" where
  "relevance_map =
     [(''product_owner'',
        [(''requirements'', [''business_goals'', ''user_stories'', ''constraints'']),
         (''planning'', [''sprint_capacity'', ''backlog'', ''priorities'']),
         (''review'', [''acceptance_criteria'', ''metrics'', ''feedback''])]),
      (''backend_dev'',
        [(''design'', [''api_standards'', ''data_models'', ''architecture'']),
         (''implement'', [''tech_stack'', ''database_schema'', ''endpoints'']),
         (''test'', [''test_coverage'', ''integration_points'', ''performance''])]),
      (''frontend_dev'',
        [(''design'', [''ui_framework'', ''design_system'', ''components'']),
         (''implement'', [''state_management'', ''api_endpoints'', ''routes'']),
         (''test'', [''browser_targets'', ''accessibility'', ''performance''])]),
      (''devops_eng'',
        [(''setup'', [''infrastructure'', ''ci_tools'', ''deployment_targets'']),
         (''deploy'', [''pipeline_config'', ''secrets'', ''monitoring'']),
         (''monitor'', [''metrics'', ''alerts'', ''sla_requirements''])]),
      (''qa_engineer'',
        [(''plan'', [''quality_standards'', ''test_strategy'', ''coverage_goals'']),
         (''test'', [''test_suites'', ''bug_tracking'', ''environments'']),
         (''report'', [''metrics'', ''issues'', ''recommendations''])])]"

definition startswith :: "string \<Rightarrow> string \<Rightarrow> bool" where
  "startswith s p = (take (length p) s = p)"

definition calculate_relevance :: "string \<Rightarrow> string \<Rightarrow> ContextManager \<Rightarrow> string set" where
  "calculate_relevance task_type role_name self =
     (let role_context = (case map_of relevance_map role_name of None \<Rightarrow> [] | Some rc \<Rightarrow> rc);
          task_keys = (case map_of role_context task_type of None \<Rightarrow> [] | Some ks \<Rightarrow> ks)
      in (\<Union>k \<in> set task_keys.
            insert k {ctx_key \<in> fst ` set (ctx self). startswith ctx_key (k @ ''.'')}))"

text \<open>The summary that \<open>_apply_compression_patterns\<close> puts in place of a large value.\<close>

definition summarize :: "pyval \<Rightarrow> pyval" where
  "summarize v =
     (case v of
        PList xs \<Rightarrow>
          if length xs > 10
          then PDict [(''_type'', PStr ''list_summary''), (''count'', PInt (int (length xs))),
                      (''sample'', PList (take 3 xs))]
          else v
      | PDict kvs \<Rightarrow>
          if length (py_str v) > 500
          then PDict [(''_type'', PStr ''dict_summary''), (''keys'', PList (map PStr (take 5 (map fst kvs)))),
                      (''total_keys'', PInt (int (length kvs)))]
          else v
      | PStr s \<Rightarrow>
          if length s > 1000
          then PDict [(''_type'', PStr ''text_summary''), (''length'', PInt (int (length s))),
                      (''preview'', PStr (take 200 s @ ''...''))]
          else v
      | _ \<Rightarrow> v)"

text \<open>
  The result of \<open>get_relevant_context\<close> is a dictionary filled in the iteration order of a
  set; it is modelled as a map from keys to values.
\<close>

definition apply_compression_patterns :: "(string \<rightharpoonup> pyval) \<Rightarrow> (string \<rightharpoonup> pyval)" where
  "apply_compression_patterns d = (\<lambda>k. map_option summarize (d k))"

definition get_relevant_context :: "string \<Rightarrow> string \<Rightarrow> ContextManager \<Rightarrow> (string \<rightharpoonup> pyval)" where
  "get_relevant_context task_type role_name self =
     (let relevant_keys = calculate_relevance task_type role_name self
      in apply_compression_patterns
           (\<lambda>k. if k \<in> relevant_keys then map_option entry_value (map_of (ctx self) k) else None))"

subsection \<open>Export and import\<close>

text \<open>
  The exported payload is a dictionary of dictionaries. Its entries are read back with
  \<open>entry_data["value"]\<close>, \<open>entry_data.get("relevance", 1.0)\<close> and
  \<open>entry_data.get("access_count", 0)\<close>, so each of the three keys may be missing, and so
  may \<open>"context"\<close> itself.
\<close>

record ExportedEntry =
  ex_value :: "pyval option"
  ex_relevance :: "real option"
  ex_access_count :: "int option"

record ExportMetadata =
  md_token_usage :: nat
  md_max_tokens :: int
  md_compression_threshold :: real

record ExportData =
  ex_context :: "(string \<times> ExportedEntry) list option"
  ex_metadata :: "ExportMetadata option"

definition export_context :: "ContextManager \<Rightarrow> ExportData" where
  "export_context self =
     \<lparr>ex_context = Some (map (\<lambda>(k, v). (k, \<lparr>ex_value = Some (entry_value v),
                                              ex_relevance = Some (relevance_score v),
                                              ex_access_count = Some (access_count v)\<rparr>))
                           (ctx self)),
      ex_metadata = Some \<lparr>md_token_usage = get_token_usage self,
                           md_max_tokens = max_tokens self,
                           md_compression_threshold = compression_threshold\<rparr>\<rparr>"

text \<open>
  The loop of \<open>import_context\<close>. Every entry built reads the clock: \<open>clock i\<close> is what
  the \<open>i\<close>-th call of \<open>datetime.now()\<close> of the import returns. A payload entry without
  \<open>"value"\<close> raises \<open>KeyError\<close>, after the entries before it were imported.
\<close>

fun import_loop ::
  "(nat \<Rightarrow> datetime) \<Rightarrow> nat \<Rightarrow> (string \<times> ExportedEntry) list \<Rightarrow> ContextManager \<Rightarrow> exn option \<times> ContextManager" where
  "import_loop clock i [] self = (None, self)"
| "import_loop clock i ((k, entry_data) # rest) self =
     (case ex_value entry_data of
        None \<Rightarrow> (Some (KeyError ''value''), self)
      | Some v \<Rightarrow>
          import_loop clock (Suc i) rest
            (self\<lparr>ctx := AList.update k
               \<lparr>key = k, entry_value = v,
                relevance_score = (case ex_relevance entry_data of None \<Rightarrow> 1.0 | Some r \<Rightarrow> r),
                last_accessed = clock i,
                access_count = (case ex_access_count entry_data of None \<Rightarrow> 0 | Some n \<Rightarrow> n)\<rparr>
               (ctx self)\<rparr>))"

definition import_context :: "(nat \<Rightarrow> datetime) \<Rightarrow> ExportData \<Rightarrow> ContextManager \<Rightarrow> exn option \<times> ContextManager" where
  "import_context clock data self =
     import_loop clock 0 (case ex_context data of None \<Rightarrow> [] | Some entries \<Rightarrow> entries) self"

subsection \<open>Notions for the properties of the store\<close>


definition without :: "(string \<times> ContextEntry) list \<Rightarrow> ContextManager \<Rightarrow> ContextManager" where
  "without evicted self = self\<lparr>ctx := filter (\<lambda>x. fst x \<notin> fst ` set evicted) (ctx self)\<rparr>"


text \<open>The decay of every score, and what export and import make of an entry.\<close>

definition decay_all :: "(string \<times> ContextEntry) list \<Rightarrow> (string \<times> ContextEntry) list" where
  "decay_all xs = map (\<lambda>(k, entry). (k, entry\<lparr>relevance_score := relevance_score entry * relevance_decay\<rparr>)) xs"

definition imported_entry :: "string \<times> ContextEntry \<Rightarrow> datetime \<Rightarrow> ContextEntry" where
  "imported_entry x t =
     \<lparr>key = fst x, entry_value = entry_value (snd x), relevance_score = relevance_score (snd x),
      last_accessed = t, access_count = access_count (snd x)\<rparr>"

definition exported_entry :: "string \<times> ContextEntry \<Rightarrow> string \<times> ExportedEntry" where
  "exported_entry x = (fst x, \<lparr>ex_value = Some (entry_value (snd x)),
                               ex_relevance = Some (relevance_score (snd x)),
                               ex_access_count = Some (access_count (snd x))\<rparr>)"

section \<open>The event bus (core/events.py)\<close>

datatype EventType =
    TASK_CREATED | TASK_STARTED | TASK_COMPLETED | TASK_FAILED
  | WAVE_STARTED | WAVE_COMPLETED
  | HANDOFF_INITIATED | REVIEW_REQUESTED | APPROVAL_GIVEN
  | GATE_PASSED | GATE_FAILED
  | TOKEN_USAGE_HIGH | CONTEXT_COMPRESSED

text \<open>The \<open>value\<close> of a member, and its \<open>str\<close>, which is what an f-string inserts.\<close>

fun type_value :: "EventType \<Rightarrow> string" where
  "type_value TASK_CREATED = ''task.created''"
| "type_value TASK_STARTED = ''task.started''"
| "type_value TASK_COMPLETED = ''task.completed''"
| "type_value TASK_FAILED = ''task.failed''"
| "type_value WAVE_STARTED = ''wave.started''"
| "type_value WAVE_COMPLETED = ''wave.completed''"
| "type_value HANDOFF_INITIATED = ''handoff.initiated''"
| "type_value REVIEW_REQUESTED = ''review.requested''"
| "type_value APPROVAL_GIVEN = ''approval.given''"
| "type_value GATE_PASSED = ''gate.passed''"
| "type_value GATE_FAILED = ''gate.failed''"
| "type_value TOKEN_USAGE_HIGH = ''system.token_usage_high''"
| "type_value CONTEXT_COMPRESSED = ''system.context_compressed''"

fun type_str :: "EventType \<Rightarrow> string" where
  "type_str TASK_CREATED = ''EventType.TASK_CREATED''"
| "type_str TASK_STARTED = ''EventType.TASK_STARTED''"
| "type_str TASK_COMPLETED = ''EventType.TASK_COMPLETED''"
| "type_str TASK_FAILED = ''EventType.TASK_FAILED''"
| "type_str WAVE_STARTED = ''EventType.WAVE_STARTED''"
| "type_str WAVE_COMPLETED = ''EventType.WAVE_COMPLETED''"
| "type_str HANDOFF_INITIATED = ''EventType.HANDOFF_INITIATED''"
| "type_str REVIEW_REQUESTED = ''EventType.REVIEW_REQUESTED''"
| "type_str APPROVAL_GIVEN = ''EventType.APPROVAL_GIVEN''"
| "type_str GATE_PASSED = ''EventType.GATE_PASSED''"
| "type_str GATE_FAILED = ''EventType.GATE_FAILED''"
| "type_str TOKEN_USAGE_HIGH = ''EventType.TOKEN_USAGE_HIGH''"
| "type_str CONTEXT_COMPRESSED = ''EventType.CONTEXT_COMPRESSED''"

definition all_event_types :: "EventType list" where
  "all_event_types =
     [TASK_CREATED, TASK_STARTED, TASK_COMPLETED, TASK_FAILED, WAVE_STARTED, WAVE_COMPLETED,
      HANDOFF_INITIATED, REVIEW_REQUESTED, APPROVAL_GIVEN, GATE_PASSED, GATE_FAILED,
      TOKEN_USAGE_HIGH, CONTEXT_COMPRESSED]"

text \<open>
  The data of an event is a dictionary. The module reads six of its keys, and the record
  has them at the types the metrics declare for them (\<open>durations: Dict[str, List[float]]\<close>:
  a duration is a number, a task type a string); a key that is missing is \<open>None\<close>.
\<close>

record EventData =
  d_duration_seconds :: "real option"
  d_task_type :: "string option"
  d_task_id :: "pyval option"
  d_error :: "pyval option"
  d_gate :: "pyval option"
  d_reason :: "pyval option"

record Event =
  event_id :: string
  event_type :: EventType
  timestamp :: datetime
  source :: string
  data :: EventData
  metadata :: "(string \<times> pyval) list option"

subsection \<open>Metrics\<close>

record ErrorRecord =
  err_timestamp :: datetime
  err_type :: string
  err_error :: pyval

record EventMetrics =
  counts :: "string \<rightharpoonup> int"
  durations :: "string \<rightharpoonup> real list"
  errors :: "ErrorRecord list"

definition EventMetrics_init :: EventMetrics where
  "EventMetrics_init = \<lparr>counts = Map.empty, durations = Map.empty, errors = []\<rparr>"

text \<open>\<open>EventMetrics.record\<close>\<close>

definition record_event :: "Event \<Rightarrow> EventMetrics \<Rightarrow> EventMetrics" where
  "record_event event self =
     (let v = type_value (event_type event);
          self1 = self\<lparr>counts := (counts self)(v \<mapsto> (case counts self v of None \<Rightarrow> 0 | Some c \<Rightarrow> c) + 1)\<rparr>;
          self2 =
            (if event_type event = TASK_COMPLETED then
               (case d_duration_seconds (data event) of
                  None \<Rightarrow> self1
                | Some duration \<Rightarrow>
                    if duration \<noteq> 0 then
                      (let task_type = (case d_task_type (data event) of None \<Rightarrow> ''unknown'' | Some t \<Rightarrow> t)
                       in self1\<lparr>durations := (durations self1)
                            (task_type \<mapsto> (case durations self1 task_type of None \<Rightarrow> [] | Some ds \<Rightarrow> ds)
                                             @ [duration])\<rparr>)
                    else self1)
             else self1)
      in if event_type event \<in> {TASK_FAILED, GATE_FAILED}
         then self2\<lparr>errors := errors self2 @
                [\<lparr>err_timestamp = timestamp event, err_type = v,
                  err_error = (case d_error (data event) of None \<Rightarrow> PStr ''Unknown error'' | Some e \<Rightarrow> e)\<rparr>]\<rparr>
         else self2)"

subsection \<open>Handlers and the bus\<close>

text \<open>
  A handler is a callable from outside the bus: a plain function or a coroutine function
  (\<open>asyncio.iscoroutinefunction\<close> tells them apart). It acts on its environment
  \<open>'w\<close> and may write lines to the Python logger. A plain function, called with an
  event, returns or raises. A coroutine runs in segments: resumed on the environment, a
  segment ends with the coroutine finished (returned, or raised an exception) or suspended
  at an \<open>await\<close>, to be resumed later. A handler may have no \<open>__name__\<close> (a callable
  object has none).
\<close>

datatype log_line = LogError string | LogWarning string

datatype 'w co = Co "'w \<Rightarrow> ('w \<times> log_line list) \<times> (exn option + 'w co)"

fun resume :: "'w co \<Rightarrow> 'w \<Rightarrow> ('w \<times> log_line list) \<times> (exn option + 'w co)" where
  "resume (Co segment) x = segment x"

datatype 'w callable =
    Function "Event \<Rightarrow> 'w \<Rightarrow> ('w \<times> log_line list) \<times> exn option"
  | CoroutineFunction "Event \<Rightarrow> 'w co"

record 'w Handler =
  h_name :: "string option"
  h_call :: "'w callable"

text \<open>What is outside the bus: the environment of the handlers and the output of the logger.\<close>

record 'w World =
  env :: 'w
  logging :: "log_line list"

record 'w EventBus =
  handlers :: "EventType \<rightharpoonup> 'w Handler list"
  event_log :: "Event list"
  metrics :: EventMetrics

definition fmt :: "pyval option \<Rightarrow> string" where
  "fmt v = (case v of None \<Rightarrow> ''None'' | Some x \<Rightarrow> py_str x)"

definition log_failure :: "'w Handler" where
  "log_failure =
     \<lparr>h_name = Some ''_log_failure'',
      h_call = Function (\<lambda>event x. ((x,
                 [LogError (''Task failed: '' @ fmt (d_task_id (data event)) @ '' - ''
                            @ fmt (d_error (data event)))]), None))\<rparr>"

definition log_gate_failure :: "'w Handler" where
  "log_gate_failure =
     \<lparr>h_name = Some ''_log_gate_failure'',
      h_call = Function (\<lambda>event x. ((x,
                 [LogWarning (''Quality gate failed: '' @ fmt (d_gate (data event)) @ '' - ''
                              @ fmt (d_reason (data event)))]), None))\<rparr>"

definition subscribe :: "EventType \<Rightarrow> 'w Handler \<Rightarrow> 'w EventBus \<Rightarrow> 'w EventBus" where
  "subscribe ty handler self =
     self\<lparr>handlers := (handlers self)
             (ty \<mapsto> (case handlers self ty of None \<Rightarrow> [] | Some hs \<Rightarrow> hs) @ [handler])\<rparr>"

definition subscribe_all :: "'w Handler \<Rightarrow> 'w EventBus \<Rightarrow> 'w EventBus" where
  "subscribe_all handler self = fold (\<lambda>ty. subscribe ty handler) all_event_types self"

definition EventBus_init :: "'w EventBus" where
  "EventBus_init =
     subscribe GATE_FAILED log_gate_failure
       (subscribe TASK_FAILED log_failure
          \<lparr>handlers = Map.empty, event_log = [], metrics = EventMetrics_init\<rparr>)"

text \<open>
  \<open>_safe_handle\<close> is a coroutine. Its \<open>except Exception as e\<close> branch logs the failure
  with the name of the handler; reading the name of a handler that has none raises
  \<open>AttributeError\<close>, which leaves \<open>_safe_handle\<close>.
\<close>

definition handler_failed ::
  "'w Handler \<Rightarrow> Event \<Rightarrow> exn \<Rightarrow> log_line list \<times> exn option" where
  "handler_failed handler event e =
     (case h_name handler of
        Some n \<Rightarrow>
          ([LogError (''Handler '' @ n @ '' failed for '' @ type_str (event_type event)
                      @ '': '' @ exn_str e)], None)
      | None \<Rightarrow> ([], Some (AttributeError ''__name__'')))"

text \<open>
  How the call in the \<open>try\<close> block ends: it returned, or it raised an instance of
  \<open>Exception\<close>, which the branch above takes, or it raised something else
  (\<open>SystemExit\<close>, \<open>KeyboardInterrupt\<close>, another \<open>BaseException\<close>), which passes
  the \<open>except\<close> clause and leaves \<open>_safe_handle\<close>.
\<close>

definition leave_try ::
  "'w Handler \<Rightarrow> Event \<Rightarrow> ('w \<times> log_line list) \<times> exn option
     \<Rightarrow> ('w \<times> log_line list) \<times> (exn option + 'w co)" where
  "leave_try handler event out =
     (case out of
        ((x, ls), None) \<Rightarrow> ((x, ls), Inl None)
      | ((x, ls), Some e) \<Rightarrow>
          if is_Exception e
          then (case handler_failed handler event e of (ls', r) \<Rightarrow> ((x, ls @ ls'), Inl r))
          else ((x, ls), Inl (Some e)))"

text \<open>
  \<open>await handler(event)\<close> inside the \<open>try\<close> block: while the coroutine of the handler
  suspends, \<open>_safe_handle\<close> is suspended with it, and what remains of the coroutine is
  awaited in the same way (the recursive call, applied under \<open>map_prod\<close> and
  \<open>map_sum\<close> to the coroutine that a suspended segment leaves).
\<close>

primrec await_in_try :: "'w Handler \<Rightarrow> Event \<Rightarrow> 'w co \<Rightarrow> 'w co" where
  "await_in_try handler event (Co segment) =
     Co (\<lambda>x. case map_prod id (map_sum id (await_in_try handler event)) (segment x) of
                (out, Inl r) \<Rightarrow> leave_try handler event (out, r)
              | (out, Inr c) \<Rightarrow> (out, Inr c))"

definition safe_handle :: "'w Handler \<Rightarrow> Event \<Rightarrow> 'w co" where
  "safe_handle handler event =
     (case h_call handler of
        CoroutineFunction f \<Rightarrow> await_in_try handler event (f event)
      | Function f \<Rightarrow> Co (\<lambda>x. leave_try handler event (f event x)))"

text \<open>
  \<open>asyncio.gather(..., return_exceptions=True)\<close> over \<open>_safe_handle\<close> of every handler.
  Each coroutine becomes a task of the event loop. A task is resumed on the world as the
  tasks before it left it; an exception that leaves its coroutine is the result of the
  task, except \<open>SystemExit\<close> and \<open>KeyboardInterrupt\<close>, which stop the event loop and
  are raised to the caller at once.
\<close>

datatype 'w task = Done "exn option" | Suspended "'w co"

fun is_Done :: "'w task \<Rightarrow> bool" where
  "is_Done (Done r) = True"
| "is_Done (Suspended c) = False"

fun result_of :: "'w task \<Rightarrow> exn option" where
  "result_of (Done r) = r"
| "result_of (Suspended c) = None"

definition advance :: "'w co \<Rightarrow> 'w World \<Rightarrow> (exn + 'w task) \<times> 'w World" where
  "advance c w =
     (case resume c (env w) of
        ((x, ls), r) \<Rightarrow>
          (let w' = \<lparr>env = x, logging = logging w @ ls\<rparr>
           in case r of
                Inl None \<Rightarrow> (Inr (Done None), w')
              | Inl (Some e) \<Rightarrow> if is_exit e then (Inl e, w') else (Inr (Done (Some e)), w')
              | Inr c' \<Rightarrow> (Inr (Suspended c'), w')))"

text \<open>
  The tasks start in the order of the list, each running to its first suspension or to its
  end.
\<close>

fun start_tasks :: "'w co list \<Rightarrow> 'w World \<Rightarrow> (exn + 'w task list) \<times> 'w World" where
  "start_tasks [] w = (Inr [], w)"
| "start_tasks (c # cs) w =
     (case advance c w of
        (Inl e, w') \<Rightarrow> (Inl e, w')
      | (Inr t, w') \<Rightarrow>
          (case start_tasks cs w' of
             (Inl e, w'') \<Rightarrow> (Inl e, w'')
           | (Inr ts, w'') \<Rightarrow> (Inr (t # ts), w'')))"

text \<open>
  The result of a call that may suspend: it returns, it raises, or it is still pending.
  Which suspended task the event loop resumes next depends on what the tasks wait for; the
  schedule lists the tasks (by position) in the order in which they become ready. The
  gathering ends when every task is done; when the schedule ends before that, it is still
  pending.
\<close>

datatype 'a outcome = Returns 'a | Raises exn | Pending

fun run_tasks ::
  "nat list \<Rightarrow> 'w task list \<Rightarrow> 'w World \<Rightarrow> exn option list outcome \<times> 'w World" where
  "run_tasks [] ts w =
     (if list_all is_Done ts then (Returns (map result_of ts), w) else (Pending, w))"
| "run_tasks (i # schedule) ts w =
     (if list_all is_Done ts then (Returns (map result_of ts), w)
      else if i < length ts then
        (case ts ! i of
           Done r \<Rightarrow> run_tasks schedule ts w
         | Suspended c \<Rightarrow>
             (case advance c w of
                (Inl e, w') \<Rightarrow> (Raises e, w')
              | (Inr t, w') \<Rightarrow> run_tasks schedule (ts[i := t]) w'))
      else run_tasks schedule ts w)"

definition gather_handlers ::
  "'w Handler list \<Rightarrow> Event \<Rightarrow> nat list \<Rightarrow> 'w World \<Rightarrow> exn option list outcome \<times> 'w World" where
  "gather_handlers hs event schedule w =
     (case start_tasks (map (\<lambda>handler. safe_handle handler event) hs) w of
        (Inl e, w') \<Rightarrow> (Raises e, w')
      | (Inr ts, w') \<Rightarrow> run_tasks schedule ts w')"

text \<open>
  \<open>emit\<close>, under a schedule of the event loop. The statements before the gathering cannot
  raise, and the result of the gathering is dropped.
\<close>

definition emit ::
  "Event \<Rightarrow> 'w EventBus \<Rightarrow> nat list \<Rightarrow> 'w World \<Rightarrow> unit outcome \<times> 'w EventBus \<times> 'w World" where
  "emit event self schedule w =
     (let self1 = self\<lparr>event_log := event_log self @ [event]\<rparr>;
          self2 = self1\<lparr>metrics := record_event event (metrics self1)\<rparr>;
          hs = (case handlers self2 (event_type event) of None \<Rightarrow> [] | Some hs \<Rightarrow> hs)
      in if hs \<noteq> [] then
           (case gather_handlers hs event schedule w of
              (Returns rs, w') \<Rightarrow> (Returns (), self2, w')
            | (Raises e, w') \<Rightarrow> (Raises e, self2, w')
            | (Pending, w') \<Rightarrow> (Pending, self2, w'))
         else (Returns (), self2, w))"

text \<open>
  A caller of the bus subscribes handlers and emits events, in any order; each emit comes
  with the schedule under which it runs, and the caller goes on whatever the emit did.
\<close>

datatype 'w bus_op = Emit Event "nat list" | Subscribe EventType "'w Handler" | SubscribeAll "'w Handler"

fun run_ops ::
  "'w bus_op list \<Rightarrow> 'w EventBus \<Rightarrow> 'w World \<Rightarrow> unit outcome list \<times> 'w EventBus \<times> 'w World" where
  "run_ops [] self w = ([], self, w)"
| "run_ops (Emit event schedule # ops) self w =
     (case emit event self schedule w of
        (r, self1, w1) \<Rightarrow>
          (case run_ops ops self1 w1 of (rs, self2, w2) \<Rightarrow> (r # rs, self2, w2)))"
| "run_ops (Subscribe ty h # ops) self w = run_ops ops (subscribe ty h self) w"
| "run_ops (SubscribeAll h # ops) self w = run_ops ops (subscribe_all h self) w"

text \<open>
  Notions for the properties of the bus: the count the metrics hold for a type (what
  \<open>counts.get(value, 0)\<close> returns), the events of a type among the operations of a
  caller, and the handlers subscribed to a type (\<open>handlers.get(type, [])\<close>).
\<close>

definition count_of :: "EventMetrics \<Rightarrow> EventType \<Rightarrow> int" where
  "count_of m ty = (case counts m (type_value ty) of None \<Rightarrow> 0 | Some c \<Rightarrow> c)"

fun emitted_of :: "EventType \<Rightarrow> 'w bus_op list \<Rightarrow> Event list" where
  "emitted_of ty [] = []"
| "emitted_of ty (Emit event schedule # ops) =
     (if event_type event = ty then event # emitted_of ty ops else emitted_of ty ops)"
| "emitted_of ty (Subscribe t h # ops) = emitted_of ty ops"
| "emitted_of ty (SubscribeAll h # ops) = emitted_of ty ops"


text \<open>
  A result of \<open>_safe_handle\<close> that shows the failure of the handler contained: nothing, or
  an exception that is no instance of \<open>Exception\<close>, or, for a handler with no name, the
  \<open>AttributeError\<close> of the \<open>except\<close> branch.
\<close>

definition contained :: "'w Handler \<Rightarrow> exn option \<Rightarrow> bool" where
  "contained handler r =
     (case r of
        None \<Rightarrow> True
      | Some e \<Rightarrow> \<not> is_Exception e \<or> (h_name handler = None \<and> e = AttributeError ''__name__''))"

text \<open>
  The call \<open>handler(event)\<close> seen as a coroutine, a plain function being a coroutine of
  one segment; what the first segment of the call does to the environment; a handler that is
  a plain function and never raises \<open>SystemExit\<close> or \<open>KeyboardInterrupt\<close>; and the
  handler made quiet: a plain function that does the same to the environment and to the
  logger, and never raises.
\<close>

definition call :: "'w Handler \<Rightarrow> Event \<Rightarrow> 'w co" where
  "call handler event =
     (case h_call handler of
        Function f \<Rightarrow> Co (\<lambda>x. case f event x of (out, r) \<Rightarrow> (out, Inl r))
      | CoroutineFunction f \<Rightarrow> f event)"




text \<open>
  A task of the gathering that runs \<open>_safe_handle\<close> of a handler: it is done with the
  failure contained, or it is suspended inside the \<open>try\<close> block.
\<close>

inductive guarded :: "Event \<Rightarrow> 'w Handler \<Rightarrow> 'w task \<Rightarrow> bool" where
  "contained handler r \<Longrightarrow> guarded event handler (Done r)"
| "guarded event handler (Suspended (await_in_try handler event c))"

text \<open>An event with no data, and handlers on a numeric environment, for examples.\<close>

definition plain_event :: "EventType \<Rightarrow> Event" where
  "plain_event ty = \<lparr>event_id = ''e'', event_type = ty, timestamp = 0, source = ''test'',
             data = \<lparr>d_duration_seconds = None, d_task_type = None, d_task_id = None,
                     d_error = None, d_gate = None, d_reason = None\<rparr>,
             metadata = None\<rparr>"





section \<open>Properties of the scheduler\<close>

declare waves_loop.simps [simp del]

lemma not_in_wave_filter:
  "filter (\<lambda>t. t \<notin> set (filter P xs)) xs = filter (\<lambda>t. \<not> P t) xs"
  by (rule filter_cong) auto

lemma waves_loop_step:
  assumes "rem \<noteq> []" and "filter (ready C) rem \<noteq> []"
  shows "waves_loop ws C rem =
     waves_loop (ws @ [filter (ready C) rem]) (C \<union> task_id ` set (filter (ready C) rem))
        (filter (\<lambda>t. \<not> ready C t) rem)"
proof -
  have eq: "(\<lambda>task. \<forall>dep \<in> set (dependencies task). dep \<in> C) = ready C"
    by (simp add: ready_def fun_eq_iff)
  show ?thesis
    using assms
    by (subst waves_loop.simps) (simp only: eq Let_def not_in_wave_filter if_False)
qed

lemma waves_loop_stuck:
  assumes "rem \<noteq> []" and "filter (ready C) rem = []"
  shows "waves_loop ws C rem = Inl (ValueError ''Circular dependency detected'')"
proof -
  have eq: "(\<lambda>task. \<forall>dep \<in> set (dependencies task). dep \<in> C) = ready C"
    by (simp add: ready_def fun_eq_iff)
  show ?thesis
    using assms
    by (subst waves_loop.simps) (simp add: eq Let_def)
qed

lemma waves_loop_done: "waves_loop ws C [] = Inr ws"
  by (subst waves_loop.simps) simp

lemma waves_loop_induct [case_names finished stuck step]:
  assumes "\<And>ws C. P ws C []"
    and "\<And>ws C rem. rem \<noteq> [] \<Longrightarrow> filter (ready C) rem = [] \<Longrightarrow> P ws C rem"
    and "\<And>ws C rem. rem \<noteq> [] \<Longrightarrow> filter (ready C) rem \<noteq> [] \<Longrightarrow>
           P (ws @ [filter (ready C) rem]) (C \<union> task_id ` set (filter (ready C) rem))
              (filter (\<lambda>t. \<not> ready C t) rem) \<Longrightarrow> P ws C rem"
  shows "P ws C rem"
proof (induction "length rem" arbitrary: ws C rem rule: less_induct)
  case less
  show ?case
  proof (cases "rem = []")
    case True
    then show ?thesis using assms(1) by simp
  next
    case ne: False
    show ?thesis
    proof (cases "filter (ready C) rem = []")
      case True
      then show ?thesis using assms(2) ne by blast
    next
      case False
      then obtain x where "x \<in> set rem" "ready C x"
        by (metis filter_False)
      then have "length (filter (\<lambda>t. \<not> ready C t) rem) < length rem"
        by (intro length_filter_less[of x]) auto
      then show ?thesis using less assms(3)[OF ne False] by blast
    qed
  qed
qed

lemma waves_loop_error:
  "waves_loop ws C rem = Inl e \<Longrightarrow> e = ValueError ''Circular dependency detected''"
proof (induction ws C rem rule: waves_loop_induct)
  case (finished ws C)
  then show ?case by (simp add: waves_loop_done)
next
  case (stuck ws C rem)
  then show ?case by (simp add: waves_loop_stuck)
next
  case (step ws C rem)
  then show ?case by (simp add: waves_loop_step)
qed

lemma waves_loop_sound:
  "waves_loop ws C rem = Inr res \<Longrightarrow>
   \<exists>new. res = ws @ new \<and> mset (concat new) = mset rem
     \<and> (\<forall>i<length new. \<forall>j<i. set (new ! i) \<inter> set (new ! j) = {})
     \<and> (\<forall>i<length new. \<forall>t \<in> set (new ! i). \<forall>d \<in> set (dependencies t).
            d \<in> C \<or> (\<exists>j<i. d \<in> task_id ` set (new ! j)))"
proof (induction ws C rem arbitrary: res rule: waves_loop_induct)
  case (finished ws C)
  then show ?case by (simp add: waves_loop_done)
next
  case (stuck ws C rem)
  then show ?case by (simp add: waves_loop_stuck)
next
  case (step ws C rem)
  let ?wave = "filter (ready C) rem"
  let ?rem' = "filter (\<lambda>t. \<not> ready C t) rem"
  from step.prems step.hyps have "waves_loop (ws @ [?wave]) (C \<union> task_id ` set ?wave) ?rem' = Inr res"
    by (simp add: waves_loop_step)
  from step.IH[OF this] obtain new where
    res: "res = (ws @ [?wave]) @ new"
    and ms: "mset (concat new) = mset ?rem'"
    and dj: "\<forall>i<length new. \<forall>j<i. set (new ! i) \<inter> set (new ! j) = {}"
    and ord: "\<forall>i<length new. \<forall>t \<in> set (new ! i). \<forall>d \<in> set (dependencies t).
            d \<in> C \<union> task_id ` set ?wave \<or> (\<exists>j<i. d \<in> task_id ` set (new ! j))"
    by blast
  have sub: "\<And>i. i < length new \<Longrightarrow> set (new ! i) \<subseteq> set ?rem'"
  proof -
    fix i assume "i < length new"
    then have "new ! i \<in> set new" by (rule nth_mem)
    then have "set (new ! i) \<subseteq> set (concat new)" by auto
    also have "\<dots> = set ?rem'" using ms by (metis set_mset_mset)
    finally show "set (new ! i) \<subseteq> set ?rem'" .
  qed
  have 1: "res = ws @ (?wave # new)" using res by simp
  have 2: "mset (concat (?wave # new)) = mset rem"
    using ms by simp
  have 3: "\<forall>i<length (?wave # new). \<forall>j<i. set ((?wave # new) ! i) \<inter> set ((?wave # new) ! j) = {}"
  proof (intro allI impI)
    fix i j assume i: "i < length (?wave # new)" and j: "j < i"
    then obtain i' where i': "i = Suc i'" "i' < length new" by (cases i) auto
    show "set ((?wave # new) ! i) \<inter> set ((?wave # new) ! j) = {}"
    proof (cases j)
      case 0
      then show ?thesis using sub[OF i'(2)] i' by auto
    next
      case (Suc j')
      then show ?thesis using dj i' j by auto
    qed
  qed
  have 4: "\<forall>i<length (?wave # new). \<forall>t \<in> set ((?wave # new) ! i). \<forall>d \<in> set (dependencies t).
            d \<in> C \<or> (\<exists>j<i. d \<in> task_id ` set ((?wave # new) ! j))"
  proof (intro allI impI ballI)
    fix i t d assume i: "i < length (?wave # new)" and t: "t \<in> set ((?wave # new) ! i)"
      and d: "d \<in> set (dependencies t)"
    show "d \<in> C \<or> (\<exists>j<i. d \<in> task_id ` set ((?wave # new) ! j))"
    proof (cases i)
      case 0
      then show ?thesis using t d by (auto simp: ready_def)
    next
      case (Suc i')
      then have i': "i' < length new" and t': "t \<in> set (new ! i')" using i t by auto
      from ord i' t' d have "d \<in> C \<union> task_id ` set ?wave \<or> (\<exists>j<i'. d \<in> task_id ` set (new ! j))"
        by blast
      then consider "d \<in> C" | "d \<in> task_id ` set ?wave" | j where "j < i'" "d \<in> task_id ` set (new ! j)"
        by blast
      then show ?thesis
      proof cases
        case 1
        then show ?thesis by simp
      next
        case 2
        then have "0 < i \<and> d \<in> task_id ` set ((?wave # new) ! 0)" using Suc by simp
        then show ?thesis by blast
      next
        case 3
        then have "Suc j < i \<and> d \<in> task_id ` set ((?wave # new) ! Suc j)" using Suc by simp
        then show ?thesis by blast
      qed
    qed
  qed
  show ?case
    by (rule exI[of _ "?wave # new"]) (use 1 2 3 4 in \<open>intro conjI\<close>)
qed

lemma waves_loop_progress:
  assumes ac: "acyclic (dep_edges ts)" and rs: "deps_resolve ts"
  shows "set rem \<subseteq> set ts \<Longrightarrow> task_id ` set ts \<subseteq> C \<union> task_id ` set rem
     \<Longrightarrow> \<exists>res. waves_loop ws C rem = Inr res"
proof (induction ws C rem rule: waves_loop_induct)
  case (finished ws C)
  then show ?case by (simp add: waves_loop_done)
next
  case (stuck ws C rem)
  have fin: "finite (dep_edges ts)" by (simp add: dep_edges_def)
  have wf: "wf (dep_edges ts)" using fin ac by (rule finite_acyclic_wf)
  from stuck.hyps(1) obtain t0 where "t0 \<in> set rem" by (cases rem) auto
  then have "task_id t0 \<in> task_id ` set rem" by (rule imageI)
  then obtain z where z: "z \<in> task_id ` set rem"
    and zmin: "\<And>y. (y, z) \<in> dep_edges ts \<Longrightarrow> y \<notin> task_id ` set rem"
    by (rule wfE_min[OF wf]) blast
  from z obtain t where t: "t \<in> set rem" "task_id t = z" by auto
  have "ready C t" unfolding ready_def
  proof
    fix d assume d: "d \<in> set (dependencies t)"
    from t stuck.prems(1) have tts: "t \<in> set ts" by auto
    with d t have "(d, z) \<in> dep_edges ts" by (auto simp: dep_edges_def)
    then have "d \<notin> task_id ` set rem" by (rule zmin)
    moreover from rs tts d have "d \<in> task_id ` set ts" by (auto simp: deps_resolve_def)
    ultimately show "d \<in> C" using stuck.prems(2) by blast
  qed
  with t have "t \<in> set (filter (ready C) rem)" by simp
  then have False unfolding stuck.hyps(2) by simp
  then show ?case ..
next
  case (step ws C rem)
  have a: "set (filter (\<lambda>t. \<not> ready C t) rem) \<subseteq> set ts" using step.prems(1) by auto
  have b: "task_id ` set ts \<subseteq> (C \<union> task_id ` set (filter (ready C) rem))
       \<union> task_id ` set (filter (\<lambda>t. \<not> ready C t) rem)"
  proof
    fix x assume "x \<in> task_id ` set ts"
    with step.prems(2) have "x \<in> C \<or> x \<in> task_id ` set rem" by blast
    then show "x \<in> (C \<union> task_id ` set (filter (ready C) rem))
       \<union> task_id ` set (filter (\<lambda>t. \<not> ready C t) rem)"
      by (cases "x \<in> C") auto
  qed
  show ?case using step.IH[OF a b] waves_loop_step[OF step.hyps(1,2), of ws] by simp
qed

lemma waves_loop_rank:
  "waves_loop ws C rem = Inr res \<Longrightarrow> distinct (map task_id rem) \<Longrightarrow>
   \<exists>rk :: string \<Rightarrow> nat. \<forall>t \<in> set rem. \<forall>d \<in> set (dependencies t).
       d \<in> C \<or> (d \<in> task_id ` set rem \<and> rk d < rk (task_id t))"
proof (induction ws C rem arbitrary: res rule: waves_loop_induct)
  case (finished ws C)
  then show ?case by simp
next
  case (stuck ws C rem)
  then show ?case by (simp add: waves_loop_stuck)
next
  case (step ws C rem)
  let ?wave = "filter (ready C) rem"
  let ?rem' = "filter (\<lambda>t. \<not> ready C t) rem"
  from step.prems step.hyps have run: "waves_loop (ws @ [?wave]) (C \<union> task_id ` set ?wave) ?rem' = Inr res"
    by (simp add: waves_loop_step)
  have dist': "distinct (map task_id ?rem')" using step.prems(2) by (simp add: distinct_map_filter)
  from step.IH[OF run dist'] obtain rk :: "string \<Rightarrow> nat" where
    rk: "\<forall>t \<in> set ?rem'. \<forall>d \<in> set (dependencies t).
       d \<in> C \<union> task_id ` set ?wave \<or> (d \<in> task_id ` set ?rem' \<and> rk d < rk (task_id t))"
    by blast
  define rk' where "rk' x = (if x \<in> task_id ` set ?wave then 0 else Suc (rk x))" for x
  have inj: "inj_on task_id (set rem)" using step.prems(2) by (simp add: distinct_map)
  have "\<forall>t \<in> set rem. \<forall>d \<in> set (dependencies t).
       d \<in> C \<or> (d \<in> task_id ` set rem \<and> rk' d < rk' (task_id t))"
  proof (intro ballI)
    fix t d assume t: "t \<in> set rem" and d: "d \<in> set (dependencies t)"
    show "d \<in> C \<or> (d \<in> task_id ` set rem \<and> rk' d < rk' (task_id t))"
    proof (cases "ready C t")
      case True
      then show ?thesis using d by (simp add: ready_def)
    next
      case False
      then have t': "t \<in> set ?rem'" using t by simp
      have notw: "task_id t \<notin> task_id ` set ?wave"
      proof
        assume "task_id t \<in> task_id ` set ?wave"
        then obtain u where u: "u \<in> set rem" "ready C u" "task_id u = task_id t" by auto
        with inj t have "u = t" by (auto dest: inj_onD)
        with u False show False by simp
      qed
      then have rkt: "rk' (task_id t) = Suc (rk (task_id t))" by (simp add: rk'_def)
      from rk t' d have "d \<in> C \<union> task_id ` set ?wave \<or> (d \<in> task_id ` set ?rem' \<and> rk d < rk (task_id t))"
        by blast
      then consider "d \<in> C" | "d \<in> task_id ` set ?wave"
        | "d \<notin> task_id ` set ?wave" "d \<in> task_id ` set ?rem'" "rk d < rk (task_id t)"
        by blast
      then show ?thesis
      proof cases
        case 1
        then show ?thesis by simp
      next
        case 2
        then have "rk' d = 0" by (simp add: rk'_def)
        moreover from 2 have "d \<in> task_id ` set rem" by auto
        ultimately show ?thesis using rkt by simp
      next
        case 3
        then have "rk' d = Suc (rk d)" by (simp add: rk'_def)
        moreover from 3 have "d \<in> task_id ` set rem" by auto
        ultimately show ?thesis using rkt 3 by simp
      qed
    qed
  qed
  then show ?case by blast
qed

lemma calculate_waves_Inr_wellformed:
  assumes "calculate_waves ts = Inr res" and "distinct (map task_id ts)"
  shows "acyclic (dep_edges ts) \<and> deps_resolve ts"
proof -
  from assms obtain rk :: "string \<Rightarrow> nat" where
    rk: "\<forall>t \<in> set ts. \<forall>d \<in> set (dependencies t). d \<in> task_id ` set ts \<and> rk d < rk (task_id t)"
    unfolding calculate_waves_def using waves_loop_rank[of "[]" "{}" ts res] by auto
  have "dep_edges ts \<subseteq> inv_image less_than rk"
    using rk by (auto simp: dep_edges_def)
  moreover have "wf (inv_image less_than rk)" by simp
  ultimately have "wf (dep_edges ts)" by (rule wf_subset[rotated])
  then have "acyclic (dep_edges ts)" by (rule wf_acyclic)
  moreover have "deps_resolve ts" using rk by (auto simp: deps_resolve_def)
  ultimately show ?thesis by simp
qed

lemma waves_cover_unique:
  assumes ms: "mset (concat ws) = mset ts"
    and dj: "\<forall>i<length ws. \<forall>j<i. set (ws ! i) \<inter> set (ws ! j) = {}"
    and t: "t \<in> set ts"
  shows "\<exists>!i. i < length ws \<and> t \<in> set (ws ! i)"
proof -
  from ms have "set (concat ws) = set ts" by (metis set_mset_mset)
  with t have "t \<in> set (concat ws)" by simp
  then obtain w where w: "w \<in> set ws" "t \<in> set w" by auto
  then obtain i where i: "i < length ws" "ws ! i = w" by (auto simp: in_set_conv_nth)
  show ?thesis
  proof (rule ex1I[of _ i])
    show "i < length ws \<and> t \<in> set (ws ! i)" using i w by simp
  next
    fix k assume k: "k < length ws \<and> t \<in> set (ws ! k)"
    show "k = i"
    proof (rule ccontr)
      assume "k \<noteq> i"
      then consider "k < i" | "i < k" by linarith
      then show False
      proof cases
        case 1
        with dj i have "set (ws ! i) \<inter> set (ws ! k) = {}" by blast
        with k i w show False by auto
      next
        case 2
        with dj k have "set (ws ! k) \<inter> set (ws ! i) = {}" by blast
        with k i w show False by auto
      qed
    qed
  qed
qed

lemma calculate_waves_acyclic:
  assumes ac: "acyclic (dep_edges tasks)" and rs: "deps_resolve tasks"
  shows "\<exists>waves. calculate_waves tasks = Inr waves
      \<and> mset (concat waves) = mset tasks
      \<and> (\<forall>t \<in> set tasks. \<exists>!i. i < length waves \<and> t \<in> set (waves ! i))
      \<and> (\<forall>i<length waves. \<forall>t \<in> set (waves ! i). \<forall>d \<in> set (dependencies t).
            \<exists>j<i. \<exists>u \<in> set (waves ! j). task_id u = d)"
proof -
  from waves_loop_progress[OF ac rs, of tasks "{}" "[]"]
  obtain waves where run: "waves_loop [] {} tasks = Inr waves" by auto
  from waves_loop_sound[OF run] have
    ms: "mset (concat waves) = mset tasks"
    and dj: "\<forall>i<length waves. \<forall>j<i. set (waves ! i) \<inter> set (waves ! j) = {}"
    and ord: "\<forall>i<length waves. \<forall>t \<in> set (waves ! i). \<forall>d \<in> set (dependencies t).
            d \<in> {} \<or> (\<exists>j<i. d \<in> task_id ` set (waves ! j))"
    by auto
  have u: "\<forall>t \<in> set tasks. \<exists>!i. i < length waves \<and> t \<in> set (waves ! i)"
    using waves_cover_unique[OF ms dj] by blast
  have o: "\<forall>i<length waves. \<forall>t \<in> set (waves ! i). \<forall>d \<in> set (dependencies t).
            \<exists>j<i. \<exists>u \<in> set (waves ! j). task_id u = d"
  proof (intro allI impI ballI)
    fix i t d assume "i < length waves" "t \<in> set (waves ! i)" "d \<in> set (dependencies t)"
    with ord obtain j where "j < i" "d \<in> task_id ` set (waves ! j)" by blast
    then show "\<exists>j<i. \<exists>u \<in> set (waves ! j). task_id u = d" by auto
  qed
  from run ms u o show ?thesis unfolding calculate_waves_def by blast
qed

lemma calculate_waves_example:
  "calculate_waves [Task_init ''A'' rA aA [] pA, Task_init ''B'' rB aB [''A''] pB,
                    Task_init ''C'' rC aC [''A''] pC, Task_init ''D'' rD aD [''B'', ''C''] pD]
   = Inr [[Task_init ''A'' rA aA [] pA],
          [Task_init ''B'' rB aB [''A''] pB, Task_init ''C'' rC aC [''A''] pC],
          [Task_init ''D'' rD aD [''B'', ''C''] pD]]"
  by (simp add: calculate_waves_def waves_loop_step waves_loop_done ready_def Task_init_def
        ex_disj_distrib)

text \<open>
  C1. For every batch whose dependency ids all name tasks of the batch and whose dependency
  relation is acyclic, \<open>calculate_waves\<close> returns waves that hold every task exactly once:
  the waves together are the batch, and each task is in exactly one wave. Every dependency
  id of a task in a wave is the id of a task in a strictly earlier wave; with unique ids,
  that is the task of the batch carrying the id. Tasks A (no dependencies), B (on A),
  C (on A) and D (on B and C), whatever their roles, actions and parameters, give the
  waves [[A], [B, C], [D]].
\<close>

theorem calculate_waves_partition_order:
  "(\<forall>tasks. acyclic (dep_edges tasks) \<and> deps_resolve tasks \<longrightarrow>
      (\<exists>waves. calculate_waves tasks = Inr waves
         \<and> mset (concat waves) = mset tasks
         \<and> (\<forall>t \<in> set tasks. \<exists>!i. i < length waves \<and> t \<in> set (waves ! i))
         \<and> (\<forall>i<length waves. \<forall>t \<in> set (waves ! i). \<forall>d \<in> set (dependencies t).
               \<exists>j<i. \<exists>u \<in> set (waves ! j). task_id u = d)
         \<and> (distinct (map task_id tasks) \<longrightarrow>
              (\<forall>i<length waves. \<forall>t \<in> set (waves ! i). \<forall>d \<in> set (dependencies t).
                 \<forall>u \<in> set tasks. task_id u = d \<longrightarrow> (\<exists>j<i. u \<in> set (waves ! j))))))
   \<and> (\<forall>rA aA pA rB aB pB rC aC pC rD aD pD.
        calculate_waves [Task_init ''A'' rA aA [] pA, Task_init ''B'' rB aB [''A''] pB,
                         Task_init ''C'' rC aC [''A''] pC, Task_init ''D'' rD aD [''B'', ''C''] pD]
        = Inr [[Task_init ''A'' rA aA [] pA],
               [Task_init ''B'' rB aB [''A''] pB, Task_init ''C'' rC aC [''A''] pC],
               [Task_init ''D'' rD aD [''B'', ''C''] pD]])"
proof (intro conjI allI impI)
  fix tasks assume h: "acyclic (dep_edges tasks) \<and> deps_resolve tasks"
  then obtain waves where run: "calculate_waves tasks = Inr waves"
    and ms: "mset (concat waves) = mset tasks"
    and u: "\<forall>t \<in> set tasks. \<exists>!i. i < length waves \<and> t \<in> set (waves ! i)"
    and o: "\<forall>i<length waves. \<forall>t \<in> set (waves ! i). \<forall>d \<in> set (dependencies t).
               \<exists>j<i. \<exists>u \<in> set (waves ! j). task_id u = d"
    using calculate_waves_acyclic[of tasks] by blast
  have sets: "set (concat waves) = set tasks" using ms by (metis set_mset_mset)
  have s: "distinct (map task_id tasks) \<longrightarrow>
              (\<forall>i<length waves. \<forall>t \<in> set (waves ! i). \<forall>d \<in> set (dependencies t).
                 \<forall>u \<in> set tasks. task_id u = d \<longrightarrow> (\<exists>j<i. u \<in> set (waves ! j)))"
  proof (intro impI allI ballI)
    fix i t d u
    assume dist: "distinct (map task_id tasks)" and i: "i < length waves"
      and t: "t \<in> set (waves ! i)" and d: "d \<in> set (dependencies t)"
      and u: "u \<in> set tasks" and ud: "task_id u = d"
    from o i t d obtain j v where j: "j < i" and v: "v \<in> set (waves ! j)" "task_id v = d"
      by blast
    from j i have "waves ! j \<in> set waves" by simp
    with v have "v \<in> set (concat waves)" by auto
    with sets have "v \<in> set tasks" by simp
    moreover from dist have "inj_on task_id (set tasks)" by (simp add: distinct_map)
    ultimately have "v = u" using u ud v(2) by (auto dest: inj_onD)
    with j v show "\<exists>j<i. u \<in> set (waves ! j)" by blast
  qed
  from run ms u o s
  show "\<exists>waves. calculate_waves tasks = Inr waves
         \<and> mset (concat waves) = mset tasks
         \<and> (\<forall>t \<in> set tasks. \<exists>!i. i < length waves \<and> t \<in> set (waves ! i))
         \<and> (\<forall>i<length waves. \<forall>t \<in> set (waves ! i). \<forall>d \<in> set (dependencies t).
               \<exists>j<i. \<exists>u \<in> set (waves ! j). task_id u = d)
         \<and> (distinct (map task_id tasks) \<longrightarrow>
              (\<forall>i<length waves. \<forall>t \<in> set (waves ! i). \<forall>d \<in> set (dependencies t).
                 \<forall>u \<in> set tasks. task_id u = d \<longrightarrow> (\<exists>j<i. u \<in> set (waves ! j))))"
    by (intro exI[of _ waves] conjI)
next
  fix rA aA pA rB aB pB rC aC pC rD aD pD
  show "calculate_waves [Task_init ''A'' rA aA [] pA, Task_init ''B'' rB aB [''A''] pB,
                         Task_init ''C'' rC aC [''A''] pC, Task_init ''D'' rD aD [''B'', ''C''] pD]
        = Inr [[Task_init ''A'' rA aA [] pA],
               [Task_init ''B'' rB aB [''A''] pB, Task_init ''C'' rC aC [''A''] pC],
               [Task_init ''D'' rD aD [''B'', ''C''] pD]]"
    by (rule calculate_waves_example)
qed

theorem calculate_waves_partition_order_witness:
  "acyclic (dep_edges [Task_init ''A'' ''product_owner'' ''plan'' [] [],
                       Task_init ''B'' ''backend_dev'' ''build'' [''A''] [],
                       Task_init ''C'' ''frontend_dev'' ''build'' [''A''] [],
                       Task_init ''D'' ''qa_engineer'' ''test'' [''B'', ''C''] []])
   \<and> deps_resolve [Task_init ''A'' ''product_owner'' ''plan'' [] [],
                    Task_init ''B'' ''backend_dev'' ''build'' [''A''] [],
                    Task_init ''C'' ''frontend_dev'' ''build'' [''A''] [],
                    Task_init ''D'' ''qa_engineer'' ''test'' [''B'', ''C''] []]
   \<and> (\<exists>waves. calculate_waves [Task_init ''A'' ''product_owner'' ''plan'' [] [],
                       Task_init ''B'' ''backend_dev'' ''build'' [''A''] [],
                       Task_init ''C'' ''frontend_dev'' ''build'' [''A''] [],
                       Task_init ''D'' ''qa_engineer'' ''test'' [''B'', ''C''] []] = Inr waves
          \<and> length waves = 3
          \<and> (\<forall>i<length waves. \<forall>t \<in> set (waves ! i). \<forall>d \<in> set (dependencies t).
               \<exists>j<i. \<exists>u \<in> set (waves ! j). task_id u = d))"
proof -
  let ?ex = "[Task_init ''A'' ''product_owner'' ''plan'' [] [],
              Task_init ''B'' ''backend_dev'' ''build'' [''A''] [],
              Task_init ''C'' ''frontend_dev'' ''build'' [''A''] [],
              Task_init ''D'' ''qa_engineer'' ''test'' [''B'', ''C''] []]"
  have "acyclic (dep_edges ?ex)"
    by (rule acyclicI_order[where f = "\<lambda>x. if x = ''A'' then 2 else if x = ''D'' then 0 else (1::nat)"])
       (auto simp: dep_edges_def Task_init_def)
  moreover have "deps_resolve ?ex" by (simp add: deps_resolve_def Task_init_def)
  ultimately have h: "acyclic (dep_edges ?ex) \<and> deps_resolve ?ex" ..
  from calculate_waves_partition_order have
    "\<exists>waves. calculate_waves ?ex = Inr waves
         \<and> mset (concat waves) = mset ?ex
         \<and> (\<forall>t \<in> set ?ex. \<exists>!i. i < length waves \<and> t \<in> set (waves ! i))
         \<and> (\<forall>i<length waves. \<forall>t \<in> set (waves ! i). \<forall>d \<in> set (dependencies t).
               \<exists>j<i. \<exists>u \<in> set (waves ! j). task_id u = d)
         \<and> (distinct (map task_id ?ex) \<longrightarrow>
              (\<forall>i<length waves. \<forall>t \<in> set (waves ! i). \<forall>d \<in> set (dependencies t).
                 \<forall>u \<in> set ?ex. task_id u = d \<longrightarrow> (\<exists>j<i. u \<in> set (waves ! j))))"
    using h by blast
  then obtain waves where w: "calculate_waves ?ex = Inr waves"
    and o: "\<forall>i<length waves. \<forall>t \<in> set (waves ! i). \<forall>d \<in> set (dependencies t).
               \<exists>j<i. \<exists>u \<in> set (waves ! j). task_id u = d"
    by blast
  from w have "length waves = 3" by (auto simp: calculate_waves_example)
  with h w o show ?thesis by blast
qed

lemma calculate_waves_cases:
  "calculate_waves tasks = Inl (ValueError ''Circular dependency detected'')
   \<or> (\<exists>waves. calculate_waves tasks = Inr waves)"
proof (cases "calculate_waves tasks")
  case (Inl e)
  then show ?thesis using waves_loop_error[of "[]" "{}" tasks e] by (simp add: calculate_waves_def)
next
  case (Inr waves)
  then show ?thesis by simp
qed

text \<open>
  C2. For every batch with unique task ids whose dependency relation has a cycle or names
  an id that no task of the batch carries, \<open>calculate_waves\<close> raises the error
  "Circular dependency detected", and \<open>execute_wave\<close> on that batch raises it before
  anything else happens: the state is the one before the call, so no event was emitted,
  no hook was run, and no task was started.
\<close>

theorem cyclic_batch_rejected:
  assumes "distinct (map task_id tasks)"
    and "\<not> acyclic (dep_edges tasks) \<or> \<not> deps_resolve tasks"
  shows "calculate_waves tasks = Inl (ValueError ''Circular dependency detected'')
     \<and> execute_wave tasks self = (Inl (ValueError ''Circular dependency detected''), self)
     \<and> emitted (snd (execute_wave tasks self)) = emitted self"
proof -
  have "\<not> (\<exists>waves. calculate_waves tasks = Inr waves)"
    using assms calculate_waves_Inr_wellformed by blast
  with calculate_waves_cases[of tasks]
  have "calculate_waves tasks = Inl (ValueError ''Circular dependency detected'')" by blast
  then show ?thesis by (simp add: execute_wave_def)
qed

theorem cyclic_batch_rejected_witness:
  "distinct (map task_id [Task_init ''A'' ''backend_dev'' ''build'' [''B''] [],
                          Task_init ''B'' ''qa_engineer'' ''test'' [''A''] []])
   \<and> \<not> acyclic (dep_edges [Task_init ''A'' ''backend_dev'' ''build'' [''B''] [],
                             Task_init ''B'' ''qa_engineer'' ''test'' [''A''] []])
   \<and> calculate_waves [Task_init ''A'' ''backend_dev'' ''build'' [''B''] [],
                       Task_init ''B'' ''qa_engineer'' ''test'' [''A''] []]
       = Inl (ValueError ''Circular dependency detected'')
   \<and> execute_wave [Task_init ''A'' ''backend_dev'' ''build'' [''B''] [],
                    Task_init ''B'' ''qa_engineer'' ''test'' [''A''] []]
         \<lparr>event_handlers = [], hooks_runner = None, world = (), emitted = []\<rparr>
       = (Inl (ValueError ''Circular dependency detected''),
          \<lparr>event_handlers = [], hooks_runner = None, world = (), emitted = []\<rparr>)
   \<and> \<not> deps_resolve [Task_init ''A'' ''backend_dev'' ''build'' [''Z''] []]
   \<and> calculate_waves [Task_init ''A'' ''backend_dev'' ''build'' [''Z''] []]
       = Inl (ValueError ''Circular dependency detected'')"
proof -
  let ?ex = "[Task_init ''A'' ''backend_dev'' ''build'' [''B''] [],
              Task_init ''B'' ''qa_engineer'' ''test'' [''A''] []]"
  have d: "distinct (map task_id ?ex)" by (simp add: Task_init_def)
  have ab: "(''A'', ''B'') \<in> dep_edges ?ex" by (simp add: dep_edges_def Task_init_def)
  have ba: "(''B'', ''A'') \<in> dep_edges ?ex" by (simp add: dep_edges_def Task_init_def)
  from ab ba have "(''A'', ''A'') \<in> (dep_edges ?ex)\<^sup>+" by (rule trancl_into_trancl[OF r_into_trancl])
  then have c: "\<not> acyclic (dep_edges ?ex)" unfolding acyclic_def by blast
  then have "\<not> acyclic (dep_edges ?ex) \<or> \<not> deps_resolve ?ex" by simp
  from cyclic_batch_rejected[OF d this, of "\<lparr>event_handlers = [], hooks_runner = None, world = (), emitted = []\<rparr>"]
  have 1: "calculate_waves ?ex = Inl (ValueError ''Circular dependency detected'')"
    and 2: "execute_wave ?ex \<lparr>event_handlers = [], hooks_runner = None, world = (), emitted = []\<rparr>
       = (Inl (ValueError ''Circular dependency detected''),
          \<lparr>event_handlers = [], hooks_runner = None, world = (), emitted = []\<rparr>)"
    by simp_all
  let ?ez = "[Task_init ''A'' ''backend_dev'' ''build'' [''Z''] []]"
  have dz: "distinct (map task_id ?ez)" by simp
  have z: "\<not> deps_resolve ?ez" by (simp add: deps_resolve_def Task_init_def)
  then have "\<not> acyclic (dep_edges ?ez) \<or> \<not> deps_resolve ?ez" by simp
  from cyclic_batch_rejected[OF dz this, of "\<lparr>event_handlers = [], hooks_runner = None, world = (), emitted = []\<rparr>"]
  have 3: "calculate_waves ?ez = Inl (ValueError ''Circular dependency detected'')" by simp
  from d c 1 2 z 3 show ?thesis by (intro conjI)
qed

section \<open>Properties of the executor\<close>

lemma same_config_refl [simp]: "same_config self self"
  by (simp add: same_config_def)


lemma same_config_world [simp]: "same_config self (self\<lparr>world := w\<rparr>)"
  by (simp add: same_config_def)













lemma events_of_append [simp]: "events_of ty (a @ b) = events_of ty a @ events_of ty b"
  by (simp add: events_of_def)

lemma events_of_Cons [simp]:
  "events_of ty (e # es) = (if ev_type e = ty then e # events_of ty es else events_of ty es)"
  by (simp add: events_of_def)

lemma events_of_Nil [simp]: "events_of ty [] = []"
  by (simp add: events_of_def)









lemma map_prod_Finished_neq [simp]: "map_prod Finished id p \<noteq> (Sleeping t, s)"
  by (cases p) simp




section \<open>The claims about execution\<close>









section \<open>Properties of the context manager\<close>

declare evict_loop.simps [simp del]




lemma without_Nil [simp]: "without [] self = self"
  by (simp add: without_def)





lemma keys_decay_all: "map fst (decay_all xs) = map fst xs"
  by (induction xs) (auto simp: decay_all_def)


lemma max_tokens_without [simp]: "max_tokens (without ys self) = max_tokens self"
  by (simp add: without_def)













lemma export_context_entries:
  "ex_context (export_context src) = Some (map exported_entry (ctx src))"
  by (simp add: export_context_def exported_entry_def case_prod_beta)

lemma import_loop_exported:
  "distinct (map fst xs) \<Longrightarrow>
   fst (import_loop clock i (map exported_entry xs) dst) = None
   \<and> max_tokens (snd (import_loop clock i (map exported_entry xs) dst)) = max_tokens dst
   \<and> (\<forall>j<length xs. map_of (ctx (snd (import_loop clock i (map exported_entry xs) dst))) (fst (xs ! j))
          = Some (imported_entry (xs ! j) (clock (i + j))))
   \<and> (\<forall>k. k \<notin> fst ` set xs \<longrightarrow>
          map_of (ctx (snd (import_loop clock i (map exported_entry xs) dst))) k = map_of (ctx dst) k)"
proof (induction xs arbitrary: i dst)
  case Nil
  then show ?case by simp
next
  case (Cons x xs)
  let ?dst1 = "dst\<lparr>ctx := AList.update (fst x) (imported_entry x (clock i)) (ctx dst)\<rparr>"
  have step: "import_loop clock i (map exported_entry (x # xs)) dst
      = import_loop clock (Suc i) (map exported_entry xs) ?dst1"
    by (simp add: exported_entry_def imported_entry_def)
  from Cons.prems have d: "distinct (map fst xs)" and nx: "fst x \<notin> fst ` set xs" by auto
  note IH = Cons.IH[OF d, of "Suc i" ?dst1]
  let ?r = "snd (import_loop clock (Suc i) (map exported_entry xs) ?dst1)"
  have 1: "fst (import_loop clock i (map exported_entry (x # xs)) dst) = None"
    using IH step by simp
  have 2: "max_tokens (snd (import_loop clock i (map exported_entry (x # xs)) dst)) = max_tokens dst"
    using IH step by simp
  have 3: "\<forall>j<length (x # xs). map_of (ctx (snd (import_loop clock i (map exported_entry (x # xs)) dst))) (fst ((x # xs) ! j))
          = Some (imported_entry ((x # xs) ! j) (clock (i + j)))"
  proof (intro allI impI)
    fix j assume j: "j < length (x # xs)"
    show "map_of (ctx (snd (import_loop clock i (map exported_entry (x # xs)) dst))) (fst ((x # xs) ! j))
          = Some (imported_entry ((x # xs) ! j) (clock (i + j)))"
    proof (cases j)
      case 0
      from IH nx have "map_of (ctx ?r) (fst x) = map_of (ctx ?dst1) (fst x)" by blast
      then show ?thesis using 0 step by (simp add: update_conv)
    next
      case (Suc j')
      with j have "j' < length xs" by simp
      with IH have "map_of (ctx ?r) (fst (xs ! j')) = Some (imported_entry (xs ! j') (clock (Suc i + j')))"
        by blast
      then show ?thesis using Suc step by simp
    qed
  qed
  have 4: "\<forall>k. k \<notin> fst ` set (x # xs) \<longrightarrow>
          map_of (ctx (snd (import_loop clock i (map exported_entry (x # xs)) dst))) k = map_of (ctx dst) k"
  proof (intro allI impI)
    fix k assume k: "k \<notin> fst ` set (x # xs)"
    then have "k \<notin> fst ` set xs" "k \<noteq> fst x" by auto
    with IH have "map_of (ctx ?r) k = map_of (ctx ?dst1) k" by blast
    also have "\<dots> = map_of (ctx dst) k" using \<open>k \<noteq> fst x\<close> by (simp add: update_conv)
    finally show "map_of (ctx (snd (import_loop clock i (map exported_entry (x # xs)) dst))) k = map_of (ctx dst) k"
      using step by simp
  qed
  from 1 2 3 4 show ?case by (intro conjI)
qed

text \<open>
  C8. For every store (a dictionary: its keys are distinct) and every target store,
  importing what the store exports raises nothing and leaves, under the key of each
  exported entry, an entry with the same value, the same access count and the same
  relevance score, whose last access is the reading of the clock taken when the import
  built it, whatever it was before. Entries of the target under other keys are untouched.
\<close>

theorem export_import_roundtrip:
  assumes "distinct (map fst (ctx src))"
  shows "\<exists>dst'. import_context clock (export_context src) dst = (None, dst')
     \<and> (\<forall>j<length (ctx src). \<exists>e'.
           map_of (ctx dst') (fst (ctx src ! j)) = Some e'
         \<and> entry_value e' = entry_value (snd (ctx src ! j))
         \<and> access_count e' = access_count (snd (ctx src ! j))
         \<and> relevance_score e' = relevance_score (snd (ctx src ! j))
         \<and> last_accessed e' = clock j)
     \<and> (\<forall>k. k \<notin> fst ` set (ctx src) \<longrightarrow> map_of (ctx dst') k = map_of (ctx dst) k)"
proof -
  let ?r = "import_loop clock 0 (map exported_entry (ctx src)) dst"
  have eq: "import_context clock (export_context src) dst = ?r"
    by (simp add: import_context_def export_context_entries)
  note L = import_loop_exported[OF assms, of clock 0 dst]
  have 1: "import_context clock (export_context src) dst = (None, snd ?r)"
    using L eq by (metis prod.collapse)
  have 2: "\<forall>j<length (ctx src). \<exists>e'.
           map_of (ctx (snd ?r)) (fst (ctx src ! j)) = Some e'
         \<and> entry_value e' = entry_value (snd (ctx src ! j))
         \<and> access_count e' = access_count (snd (ctx src ! j))
         \<and> relevance_score e' = relevance_score (snd (ctx src ! j))
         \<and> last_accessed e' = clock j"
  proof (intro allI impI)
    fix j assume "j < length (ctx src)"
    with L have "map_of (ctx (snd ?r)) (fst (ctx src ! j)) = Some (imported_entry (ctx src ! j) (clock (0 + j)))"
      by blast
    then show "\<exists>e'.
           map_of (ctx (snd ?r)) (fst (ctx src ! j)) = Some e'
         \<and> entry_value e' = entry_value (snd (ctx src ! j))
         \<and> access_count e' = access_count (snd (ctx src ! j))
         \<and> relevance_score e' = relevance_score (snd (ctx src ! j))
         \<and> last_accessed e' = clock j"
      by (simp add: imported_entry_def)
  qed
  have 3: "\<forall>k. k \<notin> fst ` set (ctx src) \<longrightarrow> map_of (ctx (snd ?r)) k = map_of (ctx dst) k"
    using L by blast
  show ?thesis by (rule exI[of _ "snd ?r"]) (use 1 2 3 in \<open>intro conjI\<close>)
qed

theorem export_import_roundtrip_witness:
  "distinct (map fst (ctx \<lparr>max_tokens = 4000,
       ctx = [(''goal'', \<lparr>key = ''goal'', entry_value = PStr ''ship'', relevance_score = 1 / 2,
                 last_accessed = 5, access_count = 3\<rparr>)]\<rparr>))
   \<and> import_context (\<lambda>i. 100 + int i)
        (export_context \<lparr>max_tokens = 4000,
           ctx = [(''goal'', \<lparr>key = ''goal'', entry_value = PStr ''ship'', relevance_score = 1 / 2,
                     last_accessed = 5, access_count = 3\<rparr>)]\<rparr>)
        (ContextManager_init 4000)
     = (None, \<lparr>max_tokens = 4000,
           ctx = [(''goal'', \<lparr>key = ''goal'', entry_value = PStr ''ship'', relevance_score = 1 / 2,
                     last_accessed = 100, access_count = 3\<rparr>)]\<rparr>)"
proof -
  let ?src = "\<lparr>max_tokens = 4000,
       ctx = [(''goal'', \<lparr>key = ''goal'', entry_value = PStr ''ship'', relevance_score = 1 / 2,
                 last_accessed = 5, access_count = 3\<rparr>)]\<rparr>"
  have d: "distinct (map fst (ctx ?src))" by simp
  from export_import_roundtrip[OF d, of "\<lambda>i. 100 + int i" "ContextManager_init 4000"]
  obtain dst' where "import_context (\<lambda>i. 100 + int i) (export_context ?src) (ContextManager_init 4000)
      = (None, dst')" by blast
  then show ?thesis
    by (simp add: import_context_def export_context_def ContextManager_init_def)
qed









lemma calculate_relevance_unknown_role:
  "map_of relevance_map role_name = None \<Longrightarrow> calculate_relevance task_type role_name self = {}"
  by (simp add: calculate_relevance_def)

lemma relevance_map_roles:
  "map fst relevance_map = [''product_owner'', ''backend_dev'', ''frontend_dev'', ''devops_eng'', ''qa_engineer'']"
  by (simp add: relevance_map_def)

text \<open>
  C10. For every store and every task type, \<open>get_relevant_context\<close> for the role
  \<open>tech_lead\<close> returns the empty mapping, and so it does for every role that is not one
  of the five roles of the relevance table.
\<close>

theorem tech_lead_slice_empty:
  "get_relevant_context task_type ''tech_lead'' self = Map.empty
   \<and> (\<forall>role_name. role_name \<notin> {''product_owner'', ''backend_dev'', ''frontend_dev'',
                                     ''devops_eng'', ''qa_engineer''}
         \<longrightarrow> get_relevant_context task_type role_name self = Map.empty)"
proof -
  have r: "get_relevant_context task_type role_name self = Map.empty"
    if "role_name \<notin> {''product_owner'', ''backend_dev'', ''frontend_dev'', ''devops_eng'', ''qa_engineer''}"
    for role_name
  proof -
    from that have "role_name \<notin> set (map fst relevance_map)"
      unfolding relevance_map_roles by simp
    then have "map_of relevance_map role_name = None"
      by (simp add: map_of_eq_None_iff)
    then have "calculate_relevance task_type role_name self = {}"
      by (rule calculate_relevance_unknown_role)
    then show ?thesis
      by (simp add: get_relevant_context_def apply_compression_patterns_def)
  qed
  have "''tech_lead'' \<notin> {''product_owner'', ''backend_dev'', ''frontend_dev'', ''devops_eng'', ''qa_engineer''}"
    by simp
  from r[OF this] r show ?thesis by blast
qed

theorem tech_lead_slice_empty_witness:
  "''intern'' \<notin> {''product_owner'', ''backend_dev'', ''frontend_dev'', ''devops_eng'', ''qa_engineer''}
   \<and> get_relevant_context ''requirements'' ''intern''
        (set_ctx 7 ''business_goals'' (PStr ''grow'') 1 (ContextManager_init 4000)) = Map.empty
   \<and> get_relevant_context ''requirements'' ''tech_lead''
        (set_ctx 7 ''business_goals'' (PStr ''grow'') 1 (ContextManager_init 4000)) = Map.empty"
  using tech_lead_slice_empty[of "''requirements''" "set_ctx 7 ''business_goals'' (PStr ''grow'') 1 (ContextManager_init 4000)"]
  by simp

section \<open>Properties of the event bus\<close>

lemma type_value_inj: "type_value a = type_value b \<longleftrightarrow> a = b"
  by (cases a; cases b; simp)

lemma counts_record_event:
  "counts (record_event event m) =
     (counts m)(type_value (event_type event) \<mapsto>
        (case counts m (type_value (event_type event)) of None \<Rightarrow> 0 | Some c \<Rightarrow> c) + 1)"
  by (simp add: record_event_def Let_def split: option.splits)

lemma count_of_record_event:
  "count_of (record_event event m) ty = count_of m ty + (if event_type event = ty then 1 else 0)"
proof (cases "event_type event = ty")
  case True
  then show ?thesis by (simp add: count_of_def counts_record_event)
next
  case False
  then have "type_value (event_type event) \<noteq> type_value ty" by (simp add: type_value_inj)
  with False show ?thesis by (simp add: count_of_def counts_record_event)
qed

lemma resume_await_in_try:
  "resume (await_in_try handler event c) x =
     (case resume c x of
        (out, Inl r) \<Rightarrow> leave_try handler event (out, r)
      | (out, Inr c') \<Rightarrow> (out, Inr (await_in_try handler event c')))"
  by (cases c) (auto split: prod.splits sum.splits)

lemma safe_handle_call: "safe_handle handler event = await_in_try handler event (call handler event)"
  by (auto simp: safe_handle_def call_def fun_eq_iff split: callable.splits prod.splits sum.splits)

lemma leave_try_contained:
  assumes "leave_try handler event out = (out', r)"
  shows "\<exists>r'. r = Inl r' \<and> contained handler r'"
  using assms
  by (auto simp: leave_try_def handler_failed_def contained_def
      split: prod.splits option.splits if_splits)

lemma advance_exit: "advance c w = (Inl e, w') \<Longrightarrow> is_exit e"
  by (auto simp: advance_def Let_def split: prod.splits sum.splits option.splits if_splits)

lemma advance_guarded:
  assumes "advance (await_in_try handler event c) w = (Inr t, w')"
  shows "guarded event handler t"
proof -
  obtain out r where rc: "resume c (env w) = (out, r)" by (cases "resume c (env w)")
  show ?thesis
  proof (cases r)
    case (Inl r0)
    obtain out' r' where lt: "leave_try handler event (out, r0) = (out', r')"
      by (cases "leave_try handler event (out, r0)")
    from leave_try_contained[OF lt] obtain r'' where r': "r' = Inl r''" and c: "contained handler r''"
      by blast
    from assms rc Inl lt r' have "t = Done r''"
      by (auto simp: advance_def resume_await_in_try Let_def
          split: prod.splits option.splits if_splits)
    with c show ?thesis by (simp add: guarded.intros)
  next
    case (Inr c')
    with assms rc have "t = Suspended (await_in_try handler event c')"
      by (auto simp: advance_def resume_await_in_try Let_def split: prod.splits)
    then show ?thesis by (simp add: guarded.intros)
  qed
qed

lemma start_tasks_exit: "start_tasks cs w = (Inl e, w') \<Longrightarrow> is_exit e"
proof (induction cs arbitrary: w w')
  case Nil
  then show ?case by simp
next
  case (Cons c cs)
  obtain a w1 where a: "advance c w = (a, w1)" by (cases "advance c w")
  show ?case
  proof (cases a)
    case (Inl e')
    with Cons.prems a have "e = e'" by simp
    with advance_exit a Inl show ?thesis by blast
  next
    case (Inr t)
    obtain b w2 where b: "start_tasks cs w1 = (b, w2)" by (cases "start_tasks cs w1")
    with Cons.prems a Inr have "b = Inl e" by (cases b) auto
    with b have "start_tasks cs w1 = (Inl e, w2)" by simp
    then show ?thesis by (rule Cons.IH)
  qed
qed

lemma start_tasks_guarded:
  "start_tasks (map (\<lambda>handler. safe_handle handler event) hs) w = (Inr ts, w')
   \<Longrightarrow> list_all2 (guarded event) hs ts"
proof (induction hs arbitrary: w w' ts)
  case Nil
  then show ?case by simp
next
  case (Cons h hs)
  obtain a w1 where a: "advance (safe_handle h event) w = (a, w1)"
    by (cases "advance (safe_handle h event) w")
  from Cons.prems a obtain t where t: "a = Inr t" by (cases a) auto
  obtain b w2 where b: "start_tasks (map (\<lambda>handler. safe_handle handler event) hs) w1 = (b, w2)"
    by (cases "start_tasks (map (\<lambda>handler. safe_handle handler event) hs) w1")
  from Cons.prems a t b obtain ts1 where ts1: "b = Inr ts1" "ts = t # ts1" by (cases b) auto
  from a t have "advance (await_in_try h event (call h event)) w = (Inr t, w1)"
    by (simp add: safe_handle_call)
  then have "guarded event h t" by (rule advance_guarded)
  moreover from b ts1
  have "start_tasks (map (\<lambda>handler. safe_handle handler event) hs) w1 = (Inr ts1, w2)" by simp
  then have "list_all2 (guarded event) hs ts1" by (rule Cons.IH)
  ultimately show ?case using ts1 by simp
qed

lemma guarded_Done_contained:
  "list_all2 (guarded event) hs ts \<Longrightarrow> list_all is_Done ts \<Longrightarrow> list_all2 contained hs (map result_of ts)"
proof (induction hs ts rule: list_all2_induct)
  case Nil
  then show ?case by simp
next
  case (Cons h hs t ts)
  from Cons.prems obtain r where "t = Done r" by (cases t) auto
  with Cons.hyps(1) have "contained h (result_of t)" by (auto elim: guarded.cases)
  with Cons show ?case by simp
qed

lemma run_tasks_props:
  "run_tasks schedule ts w = (out, w') \<Longrightarrow> list_all2 (guarded event) hs ts \<Longrightarrow>
   (\<forall>rs. out = Returns rs \<longrightarrow> list_all2 contained hs rs) \<and> (\<forall>e. out = Raises e \<longrightarrow> is_exit e)"
proof (induction schedule arbitrary: ts w)
  case Nil
  then show ?case by (auto simp: guarded_Done_contained split: if_splits)
next
  case (Cons i schedule)
  show ?case
  proof (cases "list_all is_Done ts")
    case True
    with Cons.prems show ?thesis by (auto simp: guarded_Done_contained)
  next
    case False
    show ?thesis
    proof (cases "i < length ts")
      case out: False
      with False Cons.prems(1) have "run_tasks schedule ts w = (out, w')" by simp
      from Cons.IH[OF this Cons.prems(2)] show ?thesis .
    next
      case True
      show ?thesis
      proof (cases "ts ! i")
        case (Done r)
        with False True Cons.prems(1) have "run_tasks schedule ts w = (out, w')" by simp
        from Cons.IH[OF this Cons.prems(2)] show ?thesis .
      next
        case (Suspended c)
        from Cons.prems(2) True have g: "guarded event (hs ! i) (ts ! i)"
          by (simp add: list_all2_conv_all_nth)
        with Suspended obtain c' where c: "c = await_in_try (hs ! i) event c'"
          by (auto elim: guarded.cases)
        obtain a w1 where a: "advance c w = (a, w1)" by (cases "advance c w")
        show ?thesis
        proof (cases a)
          case (Inl e)
          with False True Suspended a Cons.prems(1) have "out = Raises e" by simp
          with advance_exit a Inl show ?thesis by blast
        next
          case (Inr t)
          with False True Suspended a Cons.prems(1)
          have r: "run_tasks schedule (ts[i := t]) w1 = (out, w')" by simp
          from a Inr c have "advance (await_in_try (hs ! i) event c') w = (Inr t, w1)" by simp
          then have "guarded event (hs ! i) t" by (rule advance_guarded)
          with Cons.prems(2) have "list_all2 (guarded event) (hs[i := hs ! i]) (ts[i := t])"
            by (rule list_all2_update_cong)
          then have "list_all2 (guarded event) hs (ts[i := t])" by simp
          from Cons.IH[OF r this] show ?thesis .
        qed
      qed
    qed
  qed
qed

lemma gather_handlers_props:
  assumes "gather_handlers hs event schedule w = (out, w')"
  shows "(\<forall>rs. out = Returns rs \<longrightarrow> list_all2 contained hs rs) \<and> (\<forall>e. out = Raises e \<longrightarrow> is_exit e)"
proof -
  obtain a w1 where a: "start_tasks (map (\<lambda>handler. safe_handle handler event) hs) w = (a, w1)"
    by (cases "start_tasks (map (\<lambda>handler. safe_handle handler event) hs) w")
  show ?thesis
  proof (cases a)
    case (Inl e)
    with assms a have "out = Raises e" by (simp add: gather_handlers_def)
    with start_tasks_exit a Inl show ?thesis by blast
  next
    case (Inr ts)
    with assms a have r: "run_tasks schedule ts w1 = (out, w')" by (simp add: gather_handlers_def)
    from a Inr have "list_all2 (guarded event) hs ts" using start_tasks_guarded by blast
    from run_tasks_props[OF r this] show ?thesis .
  qed
qed

lemma emit_bus:
  "fst (snd (emit event self schedule w))
     = self\<lparr>event_log := event_log self @ [event], metrics := record_event event (metrics self)\<rparr>"
  by (simp add: emit_def Let_def split: prod.splits outcome.splits option.splits)

lemma emit_raises:
  assumes "fst (emit event self schedule w) = Raises e"
  shows "is_exit e"
proof -
  let ?hs = "case handlers self (event_type event) of None \<Rightarrow> [] | Some hs \<Rightarrow> hs"
  obtain out w' where g: "gather_handlers ?hs event schedule w = (out, w')"
    by (cases "gather_handlers ?hs event schedule w")
  from assms g have "out = Raises e"
    by (auto simp: emit_def Let_def split: if_splits outcome.splits)
  with gather_handlers_props[OF g] show ?thesis by simp
qed









lemma metrics_subscribe [simp]: "metrics (subscribe ty h self) = metrics self"
  by (simp add: subscribe_def)

lemma event_log_subscribe [simp]: "event_log (subscribe ty h self) = event_log self"
  by (simp add: subscribe_def)

lemma metrics_fold_subscribe [simp]: "metrics (fold (\<lambda>ty. subscribe ty h) tys self) = metrics self"
  by (induction tys arbitrary: self) simp_all

lemma event_log_fold_subscribe [simp]: "event_log (fold (\<lambda>ty. subscribe ty h) tys self) = event_log self"
  by (induction tys arbitrary: self) simp_all

lemma metrics_subscribe_all [simp]: "metrics (subscribe_all h self) = metrics self"
  by (simp add: subscribe_all_def)

lemma run_ops_counts:
  "run_ops ops self w = (rs, self', w') \<Longrightarrow>
   count_of (metrics self') ty = count_of (metrics self) ty + int (length (emitted_of ty ops))
   \<and> (\<forall>r \<in> set rs. \<forall>e. r = Raises e \<longrightarrow> is_exit e)"
proof (induction ops arbitrary: self w rs self' w')
  case Nil
  then show ?case by simp
next
  case (Cons op ops)
  show ?case
  proof (cases op)
    case (Emit event schedule)
    obtain r self1 w1 where e: "emit event self schedule w = (r, self1, w1)"
      by (cases "emit event self schedule w")
    obtain rs1 self2 w2 where r: "run_ops ops self1 w1 = (rs1, self2, w2)"
      by (cases "run_ops ops self1 w1")
    from Cons.prems Emit e r have eq: "rs = r # rs1" "self' = self2" "w' = w2" by simp_all
    from emit_bus[of event self schedule w] e
    have m1: "metrics self1 = record_event event (metrics self)" by simp
    from emit_raises[of event self schedule w] e have rn: "\<forall>e. r = Raises e \<longrightarrow> is_exit e" by simp
    from Cons.IH[OF r] have
      "count_of (metrics self2) ty = count_of (metrics self1) ty + int (length (emitted_of ty ops))"
      "\<forall>r \<in> set rs1. \<forall>e. r = Raises e \<longrightarrow> is_exit e"
      by simp_all
    then show ?thesis using eq rn m1 Emit by (simp add: count_of_record_event)
  next
    case (Subscribe ty' h)
    with Cons.prems have "run_ops ops (subscribe ty' h self) w = (rs, self', w')" by simp
    from Cons.IH[OF this] Subscribe show ?thesis by simp
  next
    case (SubscribeAll h)
    with Cons.prems have "run_ops ops (subscribe_all h self) w = (rs, self', w')" by simp
    from Cons.IH[OF this] SubscribeAll show ?thesis by simp
  qed
qed

lemma count_of_init: "count_of (metrics EventBus_init) ty = 0"
  by (simp add: EventBus_init_def EventMetrics_init_def count_of_def)

section \<open>The claims about the event bus\<close>

text \<open>
  C6. For every sequence of subscriptions and emits on a bus, under any schedules of the
  event loop, the count that the metrics hold for each event type grows by exactly the
  number of emits of events of that type, and an emit raises nothing but a
  \<open>SystemExit\<close> or \<open>KeyboardInterrupt\<close> that a handler raised; on a new bus the count
  is that number. In particular an emit of an event whose type has no subscriber returns,
  raising nothing, appends the event to the log, adds 1 to the count of its type, and
  leaves everything outside the bus as it was.
\<close>

theorem metrics_count_matches_emits:
  "(\<forall>ops self w rs self' w' ty. run_ops ops self w = (rs, self', w') \<longrightarrow>
       count_of (metrics self') ty = count_of (metrics self) ty + int (length (emitted_of ty ops))
     \<and> (\<forall>r \<in> set rs. \<forall>e. r = Raises e \<longrightarrow> is_exit e))
   \<and> (\<forall>ops w rs self' w' ty. run_ops ops EventBus_init w = (rs, self', w') \<longrightarrow>
       count_of (metrics self') ty = int (length (emitted_of ty ops)))
   \<and> (\<forall>event self schedule w.
         handlers self (event_type event) = None \<or> handlers self (event_type event) = Some [] \<longrightarrow>
       emit event self schedule w =
         (Returns (), self\<lparr>event_log := event_log self @ [event], metrics := record_event event (metrics self)\<rparr>, w)
     \<and> count_of (record_event event (metrics self)) (event_type event)
         = count_of (metrics self) (event_type event) + 1)"
proof (intro conjI allI impI)
  fix ops and self :: "'a EventBus" and w :: "'a World" and rs self' w' ty
  assume "run_ops ops self w = (rs, self', w')"
  from run_ops_counts[OF this, of ty]
  show "count_of (metrics self') ty = count_of (metrics self) ty + int (length (emitted_of ty ops))"
    and "\<forall>r \<in> set rs. \<forall>e. r = Raises e \<longrightarrow> is_exit e" by simp_all
next
  fix ops and w :: "'b World" and rs and self' :: "'b EventBus" and w' ty
  assume "run_ops ops EventBus_init w = (rs, self', w')"
  from run_ops_counts[OF this, of ty]
  show "count_of (metrics self') ty = int (length (emitted_of ty ops))"
    by (simp add: count_of_init)
next
  fix event :: Event and self :: "'c EventBus" and schedule and w :: "'c World"
  assume "handlers self (event_type event) = None \<or> handlers self (event_type event) = Some []"
  then show "emit event self schedule w =
         (Returns (), self\<lparr>event_log := event_log self @ [event], metrics := record_event event (metrics self)\<rparr>, w)"
    by (auto simp: emit_def Let_def)
next
  fix event :: Event and self :: "'c EventBus"
  show "count_of (record_event event (metrics self)) (event_type event)
         = count_of (metrics self) (event_type event) + 1"
    by (simp add: count_of_record_event)
qed

lemma handlers_init_wave: "handlers (EventBus_init :: unit EventBus) WAVE_STARTED = None"
  by (simp add: EventBus_init_def subscribe_def)

theorem metrics_count_matches_emits_witness:
  "handlers (EventBus_init :: unit EventBus) WAVE_STARTED = None
   \<and> emitted_of WAVE_STARTED [Emit (plain_event WAVE_STARTED) [], Emit (plain_event TASK_FAILED) [],
         Emit (plain_event WAVE_STARTED) [] :: unit bus_op]
       = [plain_event WAVE_STARTED, plain_event WAVE_STARTED]
   \<and> count_of (metrics (fst (snd (run_ops
         [Emit (plain_event WAVE_STARTED) [], Emit (plain_event TASK_FAILED) [],
          Emit (plain_event WAVE_STARTED) []]
         (EventBus_init :: unit EventBus) \<lparr>env = (), logging = []\<rparr>)))) WAVE_STARTED = 2
   \<and> emit (plain_event WAVE_STARTED) (EventBus_init :: unit EventBus) [] \<lparr>env = (), logging = []\<rparr>
       = (Returns (),
          EventBus_init\<lparr>event_log := [plain_event WAVE_STARTED],
                         metrics := record_event (plain_event WAVE_STARTED) EventMetrics_init\<rparr>,
          \<lparr>env = (), logging = []\<rparr>)"
proof -
  let ?ops = "[Emit (plain_event WAVE_STARTED) [], Emit (plain_event TASK_FAILED) [],
               Emit (plain_event WAVE_STARTED) []] :: unit bus_op list"
  let ?w = "\<lparr>env = (), logging = []\<rparr> :: unit World"
  obtain rs self' w' where r: "run_ops ?ops (EventBus_init :: unit EventBus) ?w = (rs, self', w')"
    by (cases "run_ops ?ops (EventBus_init :: unit EventBus) ?w")
  have e: "emitted_of WAVE_STARTED ?ops = [plain_event WAVE_STARTED, plain_event WAVE_STARTED]"
    by (simp add: plain_event_def)
  have h: "handlers (EventBus_init :: unit EventBus) (event_type (plain_event WAVE_STARTED)) = None
        \<or> handlers (EventBus_init :: unit EventBus) (event_type (plain_event WAVE_STARTED)) = Some []"
    by (simp add: plain_event_def handlers_init_wave)
  from metrics_count_matches_emits r
  have 1: "count_of (metrics self') WAVE_STARTED = int (length (emitted_of WAVE_STARTED ?ops))"
    by blast
  from metrics_count_matches_emits h
  have 2: "emit (plain_event WAVE_STARTED) (EventBus_init :: unit EventBus) [] ?w
      = (Returns (), EventBus_init\<lparr>event_log := event_log (EventBus_init :: unit EventBus) @ [plain_event WAVE_STARTED],
               metrics := record_event (plain_event WAVE_STARTED) (metrics (EventBus_init :: unit EventBus))\<rparr>, ?w)"
    by blast
  have 3: "event_log (EventBus_init :: unit EventBus) = []"
    "metrics (EventBus_init :: unit EventBus) = EventMetrics_init"
    by (simp_all add: EventBus_init_def)
  from 1 2 e r show ?thesis unfolding 3 by (simp add: handlers_init_wave)
qed






end
